theory Spec2Isabelle
  imports Main "HOL-Library.Word"
begin

section \<open>The element type\<close>

text \<open>
  \<open>Vector<T>\<close> is generic in \<open>T\<close>. The state of one \<open>T\<close> object is a value of type \<open>'a\<close>; what the
  container needs to know about \<open>T\<close> is collected in a record:
  \<^item> \<open>copy_throws x\<close>: the copy constructor \<open>T(const T&)\<close> throws when its argument holds \<open>x\<close>
    (otherwise the copy holds \<open>x\<close>);
  \<^item> \<open>assign_throws x\<close>: the copy assignment \<open>operator=(const T&)\<close> throws when its argument holds \<open>x\<close>;
  \<^item> \<open>moved_from x\<close>: the state a move leaves in its source (\<open>x\<close> itself for \<open>int\<close>, the empty
    string for \<open>std::string\<close>);
  \<^item> \<open>nothrow_move\<close>: the compile-time condition
    \<open>std::is_nothrow_move_constructible_v<T> || !std::is_copy_constructible_v<T>\<close>;
  \<^item> \<open>value_init\<close>: the value-initialised \<open>T()\<close>;
  \<^item> \<open>size_of\<close>: \<open>sizeof(T)\<close>, a \<open>size_t\<close> of 64 bits.
  Moves and value-initialisation are taken not to throw. Sizes and capacities are natural
  numbers. Where the caller chooses the capacity (\<open>Reserve\<close>, \<open>Resize\<close>, \<open>Vector(size)\<close>), the
  size computation of \<open>RawMemory::Allocate\<close> in \<open>size_t\<close> and the outcome of \<open>operator new\<close> are
  part of the model (\<open>Allocate\<close> below). Where the container chooses it (one slot, the size of
  a live source, twice a full block), the request does not wrap, since a live block has less
  than \<open>2^63\<close> bytes, and the heap is taken to grant it.
\<close>

record 'a elem_type =
  copy_throws :: "'a \<Rightarrow> bool"
  assign_throws :: "'a \<Rightarrow> bool"
  moved_from :: "'a \<Rightarrow> 'a"
  nothrow_move :: bool
  value_init :: 'a
  size_of :: "64 word"

text \<open>
  The outcome of an operation: it returns (\<open>Done\<close>, with the state it leaves and its result), an
  exception of \<open>T\<close> or \<open>std::bad_alloc\<close> leaves it (\<open>Throws\<close>, with the state left behind), or
  the behaviour is undefined (an access outside the block, a read of a slot that holds no object,
  an inverted iterator range, a failed \<open>assert\<close>, the use of a block that is shorter than its
  \<open>capacity_\<close>).
\<close>

datatype ('s, 'r) outcome = Done 's 'r | Throws 's | Undefined

section \<open>RawMemory\<close>

text \<open>
  \<open>RawMemory<T>\<close> owns \<open>capacity_\<close> slots at \<open>buffer_\<close>. The model is the list of the slots:
  \<open>None\<close> is a raw slot, \<open>Some x\<close> a slot that holds an object in state \<open>x\<close>; \<open>capacity_\<close> is the
  length of the list. A pointer into the block is the index of its slot.
\<close>

type_synonym 'a RawMemory = "'a option list"

text \<open>A block of \<open>n\<close> raw slots.\<close>

definition raw_block :: "nat \<Rightarrow> 'a RawMemory" where
  "raw_block n = replicate n None"

text \<open>
  What \<open>operator new\<close> does with a request: it returns the bytes asked for, or it throws
  \<open>std::bad_alloc\<close>.
\<close>

datatype heap = Granted | Exhausted

text \<open>
  \<open>RawMemory(size_t capacity)\<close> with its \<open>Allocate(capacity)\<close>:
  \<open>n != 0 ? operator new(n * sizeof(T)) : nullptr\<close>. The product is computed in \<open>size_t\<close>. When it
  does not wrap, the block has the \<open>n\<close> slots that \<open>capacity_\<close> records; when it wraps, the block
  has only the slots that fit into the bytes asked for (\<open>Short\<close>), while \<open>capacity_\<close> is \<open>n\<close>.
\<close>

datatype 'a allocation = Block "'a RawMemory" | Short nat | BadAlloc

definition Allocate :: "'a elem_type \<Rightarrow> heap \<Rightarrow> nat \<Rightarrow> 'a allocation" where
  "Allocate E h n =
     (if n = 0 then Block []
      else
        (case h of
           Exhausted \<Rightarrow> BadAlloc
         | Granted \<Rightarrow>
             if n * unat (size_of E) < 2 ^ 64 then Block (raw_block n)
             else Short (((n * unat (size_of E)) mod 2 ^ 64) div unat (size_of E))))"

text \<open>Reading the object in slot \<open>i\<close>: nothing to read outside the block or in a raw slot.\<close>

definition slot_read :: "'a RawMemory \<Rightarrow> nat \<Rightarrow> 'a option" where
  "slot_read m i = (if i < length m then m ! i else None)"

text \<open>\<open>new (p) T(...)\<close>: the slot holds the new object, whatever it held before.\<close>

definition placement_new :: "'a RawMemory \<Rightarrow> nat \<Rightarrow> 'a \<Rightarrow> 'a RawMemory option" where
  "placement_new m i x = (if i < length m then Some (m[i := Some x]) else None)"

text \<open>\<open>p->~T()\<close>: the slot must hold an object and is raw afterwards.\<close>

definition destroy_at :: "'a RawMemory \<Rightarrow> nat \<Rightarrow> 'a RawMemory option" where
  "destroy_at m i = (if i < length m \<and> m ! i \<noteq> None then Some (m[i := None]) else None)"

text \<open>
  \<open>*dst = std::move(*src)\<close> inside one block: the destination holds the source's state, the source
  is left moved-from. The assignment writes the destination slot as the source code does, also
  where that slot held no object before. An object moved onto itself is taken to keep its
  state (the container does so only where the object is overwritten next).
\<close>

definition move_assign_slot :: "'a elem_type \<Rightarrow> 'a RawMemory \<Rightarrow> nat \<Rightarrow> nat \<Rightarrow> 'a RawMemory option" where
  "move_assign_slot E m dst src =
     (case slot_read m src of
        None \<Rightarrow> None
      | Some x \<Rightarrow>
          if dst < length m then Some (m[src := Some (moved_from E x), dst := Some x]) else None)"

section \<open>The standard algorithms the container calls\<close>

text \<open>\<open>std::uninitialized_move_n(src + s, n, dst + d)\<close>, from one block into another.\<close>

fun uninitialized_move_n ::
  "'a elem_type \<Rightarrow> 'a RawMemory \<Rightarrow> nat \<Rightarrow> nat \<Rightarrow> 'a RawMemory \<Rightarrow> nat \<Rightarrow> ('a RawMemory \<times> 'a RawMemory) option" where
  "uninitialized_move_n E src s 0 dst d = Some (src, dst)"
| "uninitialized_move_n E src s (Suc n) dst d =
     (case slot_read src s of
        None \<Rightarrow> None
      | Some x \<Rightarrow>
          (case placement_new dst d x of
             None \<Rightarrow> None
           | Some dst' \<Rightarrow> uninitialized_move_n E (src[s := Some (moved_from E x)]) (Suc s) n dst' (Suc d)))"

text \<open>
  \<open>std::uninitialized_copy_n(src + s, n, dst + d)\<close>, from one block into another. When a copy
  throws, the copies made so far are destroyed and the exception goes on.
\<close>

fun uninitialized_copy_n ::
  "'a elem_type \<Rightarrow> 'a RawMemory \<Rightarrow> nat \<Rightarrow> nat \<Rightarrow> 'a RawMemory \<Rightarrow> nat \<Rightarrow> ('a RawMemory, unit) outcome" where
  "uninitialized_copy_n E src s 0 dst d = Done dst ()"
| "uninitialized_copy_n E src s (Suc n) dst d =
     (case slot_read src s of
        None \<Rightarrow> Undefined
      | Some x \<Rightarrow>
          if copy_throws E x then Throws dst
          else
            (case placement_new dst d x of
               None \<Rightarrow> Undefined
             | Some dst' \<Rightarrow>
                 (case uninitialized_copy_n E src (Suc s) n dst' (Suc d) of
                    Done r u \<Rightarrow> Done r u
                  | Throws r \<Rightarrow> (case destroy_at r d of None \<Rightarrow> Undefined | Some r' \<Rightarrow> Throws r')
                  | Undefined \<Rightarrow> Undefined)))"

text \<open>\<open>std::destroy_n(m + s, n)\<close>.\<close>

fun destroy_n :: "'a RawMemory \<Rightarrow> nat \<Rightarrow> nat \<Rightarrow> 'a RawMemory option" where
  "destroy_n m s 0 = Some m"
| "destroy_n m s (Suc n) =
     (case destroy_at m s of None \<Rightarrow> None | Some m' \<Rightarrow> destroy_n m' (Suc s) n)"

text \<open>\<open>std::uninitialized_value_construct_n(m + s, n)\<close>.\<close>

fun uninitialized_value_construct_n ::
  "'a elem_type \<Rightarrow> 'a RawMemory \<Rightarrow> nat \<Rightarrow> nat \<Rightarrow> 'a RawMemory option" where
  "uninitialized_value_construct_n E m s 0 = Some m"
| "uninitialized_value_construct_n E m s (Suc n) =
     (case placement_new m s (value_init E) of
        None \<Rightarrow> None
      | Some m' \<Rightarrow> uninitialized_value_construct_n E m' (Suc s) n)"

text \<open>
  \<open>std::move_backward(first, last, d_last)\<close> inside one block: \<open>while (first != last)
  *(--d_last) = std::move(*(--last))\<close>. The loop runs for the \<open>n = last - first\<close> elements, the
  last one first. \<open>[first, last)\<close> must be a range: with \<open>last\<close> before \<open>first\<close> the behaviour
  is undefined.
\<close>

fun move_backward_loop :: "'a elem_type \<Rightarrow> 'a RawMemory \<Rightarrow> nat \<Rightarrow> nat \<Rightarrow> nat \<Rightarrow> 'a RawMemory option" where
  "move_backward_loop E m first 0 d_last = Some m"
| "move_backward_loop E m first (Suc n) d_last =
     (if d_last = 0 then None
      else
        (case move_assign_slot E m (d_last - 1) (first + n) of
           None \<Rightarrow> None
         | Some m' \<Rightarrow> move_backward_loop E m' first n (d_last - 1)))"

definition move_backward :: "'a elem_type \<Rightarrow> 'a RawMemory \<Rightarrow> nat \<Rightarrow> nat \<Rightarrow> nat \<Rightarrow> 'a RawMemory option" where
  "move_backward E m first_p last_p d_last =
     (if last_p < first_p then None else move_backward_loop E m first_p (last_p - first_p) d_last)"

text \<open>
  \<open>std::move(first, last, d_first)\<close> inside one block: \<open>while (first != last)
  *d_first++ = std::move(*first++)\<close>.
\<close>

fun move_loop :: "'a elem_type \<Rightarrow> 'a RawMemory \<Rightarrow> nat \<Rightarrow> nat \<Rightarrow> nat \<Rightarrow> 'a RawMemory option" where
  "move_loop E m first 0 d_first = Some m"
| "move_loop E m first (Suc n) d_first =
     (case move_assign_slot E m d_first first of
        None \<Rightarrow> None
      | Some m' \<Rightarrow> move_loop E m' (Suc first) n (Suc d_first))"

definition move_range :: "'a elem_type \<Rightarrow> 'a RawMemory \<Rightarrow> nat \<Rightarrow> nat \<Rightarrow> nat \<Rightarrow> 'a RawMemory option" where
  "move_range E m first_p last_p d_first =
     (if last_p < first_p then None else move_loop E m first_p (last_p - first_p) d_first)"

text \<open>
  The block the source repeats wherever it fills a new block from the old one:
  \<^verbatim>\<open>
  if constexpr (std::is_nothrow_move_constructible_v<T> || !std::is_copy_constructible_v<T>)
      std::uninitialized_move_n(src + s, n, dst + d);
  else
      std::uninitialized_copy_n(src + s, n, dst + d);
  \<close>
  It gives back both blocks.
\<close>

definition transfer_n ::
  "'a elem_type \<Rightarrow> 'a RawMemory \<Rightarrow> nat \<Rightarrow> nat \<Rightarrow> 'a RawMemory \<Rightarrow> nat \<Rightarrow> ('a RawMemory \<times> 'a RawMemory, unit) outcome" where
  "transfer_n E src s n dst d =
     (if nothrow_move E then
        (case uninitialized_move_n E src s n dst d of
           None \<Rightarrow> Undefined
         | Some p \<Rightarrow> Done p ())
      else
        (case uninitialized_copy_n E src s n dst d of
           Done dst' u \<Rightarrow> Done (src, dst') ()
         | Throws dst' \<Rightarrow> Throws (src, dst')
         | Undefined \<Rightarrow> Undefined))"

text \<open>The loop \<open>for (i = 0; i < n; ++i) data_[i] = other.data_[i];\<close> of the copy assignment.\<close>

fun copy_assign_loop ::
  "'a elem_type \<Rightarrow> 'a RawMemory \<Rightarrow> 'a RawMemory \<Rightarrow> nat \<Rightarrow> nat \<Rightarrow> ('a RawMemory, unit) outcome" where
  "copy_assign_loop E src dst i 0 = Done dst ()"
| "copy_assign_loop E src dst i (Suc n) =
     (case slot_read src i of
        None \<Rightarrow> Undefined
      | Some x \<Rightarrow>
          if assign_throws E x then Throws dst
          else if i < length dst then copy_assign_loop E src (dst[i := Some x]) (Suc i) n
          else Undefined)"

section \<open>Vector\<close>

text \<open>
  The members \<open>data_\<close> and \<open>size_\<close> of the class (a name cannot end in an underscore here).
\<close>

record 'a Vector =
  m_data :: "'a RawMemory"
  m_size :: nat

definition Size :: "'a Vector \<Rightarrow> nat" where
  "Size v = m_size v"

definition Capacity :: "'a Vector \<Rightarrow> nat" where
  "Capacity v = length (m_data v)"

text \<open>\<open>operator[]\<close>, with its \<open>assert(index < size_)\<close>.\<close>

definition at :: "'a Vector \<Rightarrow> nat \<Rightarrow> 'a option" where
  "at v index = (if index < m_size v then slot_read (m_data v) index else None)"

text \<open>\<open>Vector() = default\<close>.\<close>

definition Vector_default :: "'a Vector" where
  "Vector_default = \<lparr>m_data = [], m_size = 0\<rparr>"

text \<open>\<open>explicit Vector(size_t size)\<close>: there is no object when the allocation fails.\<close>

definition Vector_sized :: "'a elem_type \<Rightarrow> heap \<Rightarrow> nat \<Rightarrow> (unit, 'a Vector) outcome" where
  "Vector_sized E h n =
     (case Allocate E h n of
        Block new_data \<Rightarrow>
          (case uninitialized_value_construct_n E new_data 0 n of
             None \<Rightarrow> Undefined
           | Some m \<Rightarrow> Done () \<lparr>m_data = m, m_size = n\<rparr>)
      | Short k \<Rightarrow> Undefined
      | BadAlloc \<Rightarrow> Throws ())"

text \<open>\<open>Vector(const Vector& other)\<close>: there is no object when a copy throws.\<close>

definition Vector_copy :: "'a elem_type \<Rightarrow> 'a Vector \<Rightarrow> (unit, 'a Vector) outcome" where
  "Vector_copy E other =
     (case uninitialized_copy_n E (m_data other) 0 (m_size other) (raw_block (m_size other)) 0 of
        Done m u \<Rightarrow> Done () \<lparr>m_data = m, m_size = m_size other\<rparr>
      | Throws m \<Rightarrow> Throws ()
      | Undefined \<Rightarrow> Undefined)"

text \<open>
  \<open>Vector(Vector&& other)\<close>: the new vector takes the block (the move constructor of
  \<open>RawMemory\<close> swaps it with an empty one) and the size, and \<open>other.size_ = 0\<close>. The result is the
  new vector and what is left of \<open>other\<close>.
\<close>

definition Vector_move :: "'a Vector \<Rightarrow> 'a Vector \<times> 'a Vector" where
  "Vector_move other =
     (\<lparr>m_data = m_data other, m_size = m_size other\<rparr>, \<lparr>m_data = [], m_size = 0\<rparr>)"

text \<open>\<open>~Vector()\<close>: \<open>std::destroy_n(data_.GetAddress(), size_)\<close>, then the block is released.\<close>

definition Vector_destroy :: "'a Vector \<Rightarrow> unit option" where
  "Vector_destroy v = (case destroy_n (m_data v) 0 (m_size v) of None \<Rightarrow> None | Some m \<Rightarrow> Some ())"

text \<open>\<open>Swap(Vector& other)\<close>: the pair is \<open>*this\<close> and \<open>other\<close> afterwards.\<close>

definition Swap :: "'a Vector \<Rightarrow> 'a Vector \<Rightarrow> 'a Vector \<times> 'a Vector" where
  "Swap v other =
     (\<lparr>m_data = m_data other, m_size = m_size other\<rparr>, \<lparr>m_data = m_data v, m_size = m_size v\<rparr>)"

text \<open>
  The right-hand side of an assignment is the vector itself (\<open>this == &other\<close>) or another one.
\<close>

datatype 'a rhs = Self | Other "'a Vector"

text \<open>\<open>operator=(const Vector& other)\<close>.\<close>

definition copy_assign :: "'a elem_type \<Rightarrow> 'a Vector \<Rightarrow> 'a rhs \<Rightarrow> ('a Vector, unit) outcome" where
  "copy_assign E v r =
     (case r of
        Self \<Rightarrow> Done v ()
      | Other other \<Rightarrow>
          if m_size other > Capacity v then
            (case Vector_copy E other of
               Done u rhs_copy \<Rightarrow>
                 (case Swap v rhs_copy of
                    (v', rhs_copy') \<Rightarrow>
                      (case Vector_destroy rhs_copy' of None \<Rightarrow> Undefined | Some u' \<Rightarrow> Done v' ()))
             | Throws u \<Rightarrow> Throws v
             | Undefined \<Rightarrow> Undefined)
          else if m_size other < m_size v then
            (case copy_assign_loop E (m_data other) (m_data v) 0 (m_size other) of
               Done m u \<Rightarrow>
                 (case destroy_n m (m_size other) (m_size v - m_size other) of
                    None \<Rightarrow> Undefined
                  | Some m' \<Rightarrow> Done \<lparr>m_data = m', m_size = m_size other\<rparr> ())
             | Throws m \<Rightarrow> Throws (v\<lparr>m_data := m\<rparr>)
             | Undefined \<Rightarrow> Undefined)
          else
            (case copy_assign_loop E (m_data other) (m_data v) 0 (m_size v) of
               Done m u \<Rightarrow>
                 (case uninitialized_copy_n E (m_data other) (m_size v) (m_size other - m_size v) m (m_size v) of
                    Done m' u' \<Rightarrow> Done \<lparr>m_data = m', m_size = m_size other\<rparr> ()
                  | Throws m' \<Rightarrow> Throws (v\<lparr>m_data := m'\<rparr>)
                  | Undefined \<Rightarrow> Undefined)
             | Throws m \<Rightarrow> Throws (v\<lparr>m_data := m\<rparr>)
             | Undefined \<Rightarrow> Undefined))"

text \<open>
  \<open>operator=(Vector&& other)\<close>: the pair is \<open>*this\<close> and the right-hand side afterwards.
\<close>

definition move_assign :: "'a Vector \<Rightarrow> 'a rhs \<Rightarrow> 'a Vector \<times> 'a rhs" where
  "move_assign v r =
     (case r of
        Self \<Rightarrow> (v, Self)
      | Other other \<Rightarrow>
          (\<lparr>m_data = m_data other, m_size = m_size other\<rparr>,
           Other \<lparr>m_data = m_data v, m_size = m_size v\<rparr>))"

text \<open>
  \<open>Reserve(size_t new_capacity)\<close>; \<open>h\<close> is what the heap does with the request for the new
  block. When \<open>operator new\<close> throws, the exception leaves \<open>Reserve\<close> before anything is changed.
  When the size computation wraps, the new block is shorter than the capacity the vector
  records from then on, and the model does not follow the vector further.
\<close>

definition Reserve :: "'a elem_type \<Rightarrow> heap \<Rightarrow> 'a Vector \<Rightarrow> nat \<Rightarrow> ('a Vector, unit) outcome" where
  "Reserve E h v new_capacity =
     (if new_capacity \<le> Capacity v then Done v ()
      else
        (case Allocate E h new_capacity of
           Block new_block \<Rightarrow>
             (case transfer_n E (m_data v) 0 (m_size v) new_block 0 of
                Done (old, new_data) u \<Rightarrow>
                  (case destroy_n old 0 (m_size v) of
                     None \<Rightarrow> Undefined
                   | Some old' \<Rightarrow> Done (v\<lparr>m_data := new_data\<rparr>) ())
              | Throws p \<Rightarrow> Throws v
              | Undefined \<Rightarrow> Undefined)
         | Short k \<Rightarrow> Undefined
         | BadAlloc \<Rightarrow> Throws v))"

text \<open>\<open>Resize(size_t new_size)\<close>; \<open>h\<close> is what the heap does if \<open>Reserve\<close> asks for a block.\<close>

definition Resize :: "'a elem_type \<Rightarrow> heap \<Rightarrow> 'a Vector \<Rightarrow> nat \<Rightarrow> ('a Vector, unit) outcome" where
  "Resize E h v new_size =
     (if new_size > m_size v then
        (case (if new_size > Capacity v then Reserve E h v new_size else Done v ()) of
           Done v1 u \<Rightarrow>
             (case uninitialized_value_construct_n E (m_data v1) (m_size v1) (new_size - m_size v1) of
                None \<Rightarrow> Undefined
              | Some m \<Rightarrow> Done \<lparr>m_data = m, m_size = new_size\<rparr> ())
         | Throws v1 \<Rightarrow> Throws v1
         | Undefined \<Rightarrow> Undefined)
      else if new_size < m_size v then
        (case destroy_n (m_data v) new_size (m_size v - new_size) of
           None \<Rightarrow> Undefined
         | Some m \<Rightarrow> Done \<lparr>m_data = m, m_size = new_size\<rparr> ())
      else Done v ())"

text \<open>\<open>PopBack()\<close>, with its \<open>assert(size_ > 0)\<close>.\<close>

definition PopBack :: "'a Vector \<Rightarrow> ('a Vector, unit) outcome" where
  "PopBack v =
     (if m_size v > 0 then
        (case destroy_at (m_data v) (m_size v - 1) of
           None \<Rightarrow> Undefined
         | Some m \<Rightarrow> Done \<lparr>m_data = m, m_size = m_size v - 1\<rparr> ())
      else Undefined)"

section \<open>Arguments of a construction\<close>

text \<open>
  A \<open>const T&\<close> argument refers to an object outside the vector (in the given state) or to the
  element in slot \<open>i\<close> of the vector's own block.
\<close>

datatype 'a cref = Outside 'a | Inside nat

definition deref :: "'a RawMemory \<Rightarrow> 'a cref \<Rightarrow> 'a option" where
  "deref m r = (case r of Outside x \<Rightarrow> Some x | Inside i \<Rightarrow> slot_read m i)"

text \<open>
  What the new element is built from: a \<open>const T&\<close> (copy construction), an rvalue that is not
  an element of the vector (move construction), or any other argument pack, given by what
  \<open>T(args...)\<close> does with it: \<open>Pack (Some x)\<close> constructs an object in state \<open>x\<close>, \<open>Pack None\<close>
  throws.
\<close>

datatype 'a ctor_args = ByCopy "'a cref" | ByMove 'a | Pack "'a option"

text \<open>\<open>T(std::forward<Args>(args)...)\<close>, evaluated while the vector's block is \<open>m\<close>.\<close>

definition construct :: "'a elem_type \<Rightarrow> 'a RawMemory \<Rightarrow> 'a ctor_args \<Rightarrow> (unit, 'a) outcome" where
  "construct E m a =
     (case a of
        ByCopy r \<Rightarrow>
          (case deref m r of
             None \<Rightarrow> Undefined
           | Some x \<Rightarrow> if copy_throws E x then Throws () else Done () x)
      | ByMove x \<Rightarrow> Done () x
      | Pack None \<Rightarrow> Throws ()
      | Pack (Some x) \<Rightarrow> Done () x)"

section \<open>Appending\<close>

text \<open>
  \<open>EmplaceBack(Args&&... args)\<close>. The result is the index of the slot the returned reference
  \<open>data_[size_ - 1]\<close> refers to (\<open>RawMemory::operator[]\<close> asserts that it is below the capacity).
\<close>

definition EmplaceBack :: "'a elem_type \<Rightarrow> 'a Vector \<Rightarrow> 'a ctor_args \<Rightarrow> ('a Vector, nat) outcome" where
  "EmplaceBack E v a =
     (case (if Capacity v = 0 then Reserve E Granted v 1 else Done v ()) of
        Done v1 u \<Rightarrow>
          (case
             (if m_size v1 = Capacity v1 then
                (case construct E (m_data v1) a of
                   Done u1 x \<Rightarrow>
                     (case placement_new (raw_block (Capacity v1 * 2)) (m_size v1) x of
                        None \<Rightarrow> Undefined
                      | Some new_data \<Rightarrow>
                          (case transfer_n E (m_data v1) 0 (m_size v1) new_data 0 of
                             Done (old, new_data') u2 \<Rightarrow>
                               (case destroy_n old 0 (m_size v1) of
                                  None \<Rightarrow> Undefined
                                | Some old' \<Rightarrow> Done \<lparr>m_data = new_data', m_size = m_size v1 + 1\<rparr> ())
                           | Throws p \<Rightarrow> Throws v1
                           | Undefined \<Rightarrow> Undefined))
                 | Throws u1 \<Rightarrow> Throws v1
                 | Undefined \<Rightarrow> Undefined)
              else
                (case construct E (m_data v1) a of
                   Done u1 x \<Rightarrow>
                     (case placement_new (m_data v1) (m_size v1) x of
                        None \<Rightarrow> Undefined
                      | Some m \<Rightarrow> Done \<lparr>m_data = m, m_size = m_size v1 + 1\<rparr> ())
                 | Throws u1 \<Rightarrow> Throws v1
                 | Undefined \<Rightarrow> Undefined))
           of
             Done v2 u3 \<Rightarrow> if m_size v2 - 1 < Capacity v2 then Done v2 (m_size v2 - 1) else Undefined
           | Throws v2 \<Rightarrow> Throws v2
           | Undefined \<Rightarrow> Undefined)
      | Throws v1 \<Rightarrow> Throws v1
      | Undefined \<Rightarrow> Undefined)"

text \<open>\<open>PushBack(const T& value)\<close>: the new element is \<open>T(value)\<close>.\<close>

definition PushBack :: "'a elem_type \<Rightarrow> 'a Vector \<Rightarrow> 'a cref \<Rightarrow> ('a Vector, unit) outcome" where
  "PushBack E v val =
     (case (if Capacity v = 0 then Reserve E Granted v 1 else Done v ()) of
        Done v1 u \<Rightarrow>
          (if m_size v1 = Capacity v1 then
             (case construct E (m_data v1) (ByCopy val) of
                Done u1 x \<Rightarrow>
                  (case placement_new (raw_block (Capacity v1 * 2)) (m_size v1) x of
                     None \<Rightarrow> Undefined
                   | Some new_data \<Rightarrow>
                       (case transfer_n E (m_data v1) 0 (m_size v1) new_data 0 of
                          Done (old, new_data') u2 \<Rightarrow>
                            (case destroy_n old 0 (m_size v1) of
                               None \<Rightarrow> Undefined
                             | Some old' \<Rightarrow> Done \<lparr>m_data = new_data', m_size = m_size v1 + 1\<rparr> ())
                        | Throws p \<Rightarrow> Throws v1
                        | Undefined \<Rightarrow> Undefined))
              | Throws u1 \<Rightarrow> Throws v1
              | Undefined \<Rightarrow> Undefined)
           else
             (case construct E (m_data v1) (ByCopy val) of
                Done u1 x \<Rightarrow>
                  (case placement_new (m_data v1) (m_size v1) x of
                     None \<Rightarrow> Undefined
                   | Some m \<Rightarrow> Done \<lparr>m_data = m, m_size = m_size v1 + 1\<rparr> ())
              | Throws u1 \<Rightarrow> Throws v1
              | Undefined \<Rightarrow> Undefined))
      | Throws v1 \<Rightarrow> Throws v1
      | Undefined \<Rightarrow> Undefined)"

text \<open>\<open>PushBack(T&& value)\<close>: the new element is \<open>T(std::move(value))\<close>.\<close>

definition PushBack_rvalue :: "'a elem_type \<Rightarrow> 'a Vector \<Rightarrow> 'a \<Rightarrow> ('a Vector, unit) outcome" where
  "PushBack_rvalue E v val =
     (case (if Capacity v = 0 then Reserve E Granted v 1 else Done v ()) of
        Done v1 u \<Rightarrow>
          (if m_size v1 = Capacity v1 then
             (case construct E (m_data v1) (ByMove val) of
                Done u1 x \<Rightarrow>
                  (case placement_new (raw_block (Capacity v1 * 2)) (m_size v1) x of
                     None \<Rightarrow> Undefined
                   | Some new_data \<Rightarrow>
                       (case transfer_n E (m_data v1) 0 (m_size v1) new_data 0 of
                          Done (old, new_data') u2 \<Rightarrow>
                            (case destroy_n old 0 (m_size v1) of
                               None \<Rightarrow> Undefined
                             | Some old' \<Rightarrow> Done \<lparr>m_data = new_data', m_size = m_size v1 + 1\<rparr> ())
                        | Throws p \<Rightarrow> Throws v1
                        | Undefined \<Rightarrow> Undefined))
              | Throws u1 \<Rightarrow> Throws v1
              | Undefined \<Rightarrow> Undefined)
           else
             (case construct E (m_data v1) (ByMove val) of
                Done u1 x \<Rightarrow>
                  (case placement_new (m_data v1) (m_size v1) x of
                     None \<Rightarrow> Undefined
                   | Some m \<Rightarrow> Done \<lparr>m_data = m, m_size = m_size v1 + 1\<rparr> ())
              | Throws u1 \<Rightarrow> Throws v1
              | Undefined \<Rightarrow> Undefined))
      | Throws v1 \<Rightarrow> Throws v1
      | Undefined \<Rightarrow> Undefined)"

section \<open>Inserting and erasing\<close>

text \<open>
  An iterator is a pointer into the block; \<open>pos\<close> is given by its offset \<open>index = pos - cbegin()\<close>,
  and so is the iterator returned.

  \<open>Emplace(const_iterator pos, Args&&... args)\<close>. In the branch that reallocates, the count
  \<open>size_ - index\<close> of the second transfer is unsigned: with \<open>index\<close> beyond \<open>size_\<close> it wraps to
  a count that runs far past both blocks. In the branch that inserts in place, \<open>temp\<close> is the
  scratch object on the heap, and the pointers \<open>data_.GetAddress() + size_ - 1\<close> and \<open>end() - 1\<close>
  lie before the block when \<open>size_\<close> is \<open>0\<close>.
\<close>

definition Emplace :: "'a elem_type \<Rightarrow> 'a Vector \<Rightarrow> nat \<Rightarrow> 'a ctor_args \<Rightarrow> ('a Vector, nat) outcome" where
  "Emplace E v index a =
     (if m_size v = Capacity v then
        (case construct E (m_data v) a of
           Done u x \<Rightarrow>
             (case placement_new (raw_block (if m_size v = 0 then 1 else Capacity v * 2)) index x of
                None \<Rightarrow> Undefined
              | Some new_data \<Rightarrow>
                  (case transfer_n E (m_data v) 0 index new_data 0 of
                     Done (old1, new_data1) u1 \<Rightarrow>
                       if m_size v < index then Undefined
                       else
                         (case transfer_n E old1 index (m_size v - index) new_data1 (index + 1) of
                            Done (old2, new_data2) u2 \<Rightarrow>
                              (case destroy_n old2 0 (m_size v) of
                                 None \<Rightarrow> Undefined
                               | Some old' \<Rightarrow>
                                   if index < length new_data2
                                   then Done \<lparr>m_data = new_data2, m_size = m_size v + 1\<rparr> index
                                   else Undefined)
                          | Throws p \<Rightarrow> Throws v
                          | Undefined \<Rightarrow> Undefined)
                   | Throws p \<Rightarrow> Throws v
                   | Undefined \<Rightarrow> Undefined))
         | Throws u \<Rightarrow> Throws v
         | Undefined \<Rightarrow> Undefined)
      else
        (case construct E (m_data v) a of
           Done u temp \<Rightarrow>
             if m_size v = 0 then Undefined
             else
               (case move_backward E (m_data v) (m_size v - 1) (m_size v) (m_size v) of
                  None \<Rightarrow> Undefined
                | Some m1 \<Rightarrow>
                    (case move_backward E m1 index (m_size v - 1) (m_size v) of
                       None \<Rightarrow> Undefined
                     | Some m2 \<Rightarrow>
                         (case placement_new m2 index temp of
                            None \<Rightarrow> Undefined
                          | Some m3 \<Rightarrow> Done \<lparr>m_data = m3, m_size = m_size v + 1\<rparr> index)))
         | Throws u \<Rightarrow> Throws v
         | Undefined \<Rightarrow> Undefined))"

text \<open>
  \<open>Insert(const_iterator pos, const T& value)\<close>. The address test
  \<open>&value >= &data_[0] && &value <= &data_[size_ - 1]\<close> holds for a reference to one of the
  slots \<open>0 .. size_ - 1\<close> of the block (\<open>data_[0]\<close> asserts that the capacity is not \<open>0\<close>); the
  temporary \<open>T(value)\<close> is then made before \<open>Emplace\<close> is entered.
\<close>

definition Insert :: "'a elem_type \<Rightarrow> 'a Vector \<Rightarrow> nat \<Rightarrow> 'a cref \<Rightarrow> ('a Vector, nat) outcome" where
  "Insert E v index val =
     (if m_size v \<noteq> 0 then
        (if Capacity v = 0 then Undefined
         else if (case val of Outside x \<Rightarrow> False | Inside i \<Rightarrow> 0 \<le> i \<and> i \<le> m_size v - 1) then
           (case construct E (m_data v) (ByCopy val) of
              Done u tmp \<Rightarrow> Emplace E v index (ByMove tmp)
            | Throws u \<Rightarrow> Throws v
            | Undefined \<Rightarrow> Undefined)
         else Emplace E v index (ByCopy val))
      else Emplace E v index (ByCopy val))"

text \<open>\<open>Insert(const_iterator pos, T&& value)\<close>.\<close>

definition Insert_rvalue :: "'a elem_type \<Rightarrow> 'a Vector \<Rightarrow> nat \<Rightarrow> 'a \<Rightarrow> ('a Vector, nat) outcome" where
  "Insert_rvalue E v index val = Emplace E v index (ByMove val)"

text \<open>
  \<open>Erase(const_iterator pos)\<close>, with its \<open>assert(pos >= begin() && pos < end())\<close>; the iterator
  returned is \<open>&data_[index]\<close>.
\<close>

definition Erase :: "'a elem_type \<Rightarrow> 'a Vector \<Rightarrow> nat \<Rightarrow> ('a Vector, nat) outcome" where
  "Erase E v index =
     (if index < m_size v then
        (case move_range E (m_data v) (index + 1) (m_size v) index of
           None \<Rightarrow> Undefined
         | Some m1 \<Rightarrow>
             (case destroy_at m1 (m_size v - 1) of
                None \<Rightarrow> Undefined
              | Some m2 \<Rightarrow>
                  if index < length m2 then Done \<lparr>m_data = m2, m_size = m_size v - 1\<rparr> index
                  else Undefined))
      else Undefined)"

section \<open>What a vector holds\<close>

text \<open>
  The invariant of the class: the slots \<open>[0, size_)\<close> hold objects, the slots
  \<open>[size_, capacity)\<close> are raw; \<open>elems\<close> is the sequence of the elements.
\<close>

definition elems :: "'a Vector \<Rightarrow> 'a list" where
  "elems v = map the (take (m_size v) (m_data v))"

definition invar :: "'a Vector \<Rightarrow> bool" where
  "invar v = (m_size v \<le> length (m_data v) \<and>
           list_all (\<lambda>s. s \<noteq> None) (take (m_size v) (m_data v)) \<and>
           list_all (\<lambda>s. s = None) (drop (m_size v) (m_data v)))"

text \<open>The vector with the given elements and capacity.\<close>

definition mk :: "'a list \<Rightarrow> nat \<Rightarrow> 'a Vector" where
  "mk xs cap = \<lparr>m_data = map Some xs @ replicate (cap - length xs) None, m_size = length xs\<rparr>"

section \<open>Auxiliary definitions\<close>

text \<open>
  Filling a new block from the elements \<open>xs\<close> does not throw: they are moved, or every copy
  succeeds. \<open>residue\<close> is what the old block holds afterwards.
\<close>

definition relocatable :: "'a elem_type \<Rightarrow> 'a list \<Rightarrow> bool" where
  "relocatable E xs = (nothrow_move E \<or> list_all (\<lambda>x. \<not> copy_throws E x) xs)"

definition residue :: "'a elem_type \<Rightarrow> 'a list \<Rightarrow> 'a list" where
  "residue E xs = (if nothrow_move E then map (moved_from E) xs else xs)"

text \<open>
  Two element types of four bytes: one like \<open>int\<close>, and one whose copy constructor and copy
  assignment throw on negative values, whose moves leave \<open>0\<close> behind and whose move constructor
  is not declared \<open>noexcept\<close>.
\<close>

definition T_int :: "int elem_type" where
  "T_int = \<lparr>copy_throws = (\<lambda>x. False), assign_throws = (\<lambda>x. False), moved_from = (\<lambda>x. x),
             nothrow_move = True, value_init = 0, size_of = 4\<rparr>"

definition T_throwing :: "int elem_type" where
  "T_throwing = \<lparr>copy_throws = (\<lambda>x. x < 0), assign_throws = (\<lambda>x. x < 0), moved_from = (\<lambda>x. 0),
                  nothrow_move = False, value_init = 0, size_of = 4\<rparr>"

text \<open>A client loop: \<open>for (const T& x : xs) v.PushBack(x);\<close>\<close>

fun push_seq :: "'a elem_type \<Rightarrow> 'a Vector \<Rightarrow> 'a list \<Rightarrow> ('a Vector, unit) outcome" where
  "push_seq E v [] = Done v ()"
| "push_seq E v (x # xs) =
     (case PushBack E v (Outside x) of
        Done v' u \<Rightarrow> push_seq E v' xs
      | Throws v' \<Rightarrow> Throws v'
      | Undefined \<Rightarrow> Undefined)"

text \<open>
  The capacities the specification lists for a sequence of pushes: \<open>0\<close> at the start, \<open>1\<close> after
  the first push, doubled by every push that finds the vector full.
\<close>

fun snapshot :: "nat \<Rightarrow> nat" where
  "snapshot 0 = 0"
| "snapshot (Suc n) =
     (if snapshot n = 0 then 1 else if n = snapshot n then snapshot n * 2 else snapshot n)"

section \<open>The algorithms on blocks\<close>

lemma length_residue [simp]: "length (residue E xs) = length xs"
  by (simp add: residue_def)

lemma slot_read_mid [simp]: "length A = n \<Longrightarrow> slot_read (A @ Some x # B) n = Some x"
  by (auto simp: slot_read_def)

lemma placement_new_mid [simp]: "length C = n \<Longrightarrow> placement_new (C @ d # F) n x = Some (C @ Some x # F)"
  by (auto simp: placement_new_def)

lemma destroy_at_mid [simp]: "length A = n \<Longrightarrow> destroy_at (A @ Some x # B) n = Some (A @ None # B)"
  by (auto simp: destroy_at_def)

lemma uninitialized_move_n_append:
  "length D = length xs \<Longrightarrow>
   uninitialized_move_n E (A @ map Some xs @ B) (length A) (length xs) (C @ D @ F) (length C) =
     Some (A @ map Some (map (moved_from E) xs) @ B, C @ map Some xs @ F)"
proof (induction xs arbitrary: A C D)
  case Nil
  then show ?case by simp
next
  case (Cons x xs)
  then obtain d D' where D: "D = d # D'" "length D' = length xs"
    by (cases D) auto
  from Cons.IH [OF D(2), where A = "A @ [Some (moved_from E x)]" and C = "C @ [Some x]"]
  show ?case using D(1) by simp
qed

lemma uninitialized_copy_n_append:
  "length D = length xs \<Longrightarrow> list_all (\<lambda>x. \<not> copy_throws E x) xs \<Longrightarrow>
   uninitialized_copy_n E (A @ map Some xs @ B) (length A) (length xs) (C @ D @ F) (length C) =
     Done (C @ map Some xs @ F) ()"
proof (induction xs arbitrary: A C D)
  case Nil
  then show ?case by simp
next
  case (Cons x xs)
  then obtain d D' where D: "D = d # D'" "length D' = length xs"
    by (cases D) auto
  from Cons.prems have ok: "list_all (\<lambda>x. \<not> copy_throws E x) xs" "\<not> copy_throws E x"
    by simp_all
  from Cons.IH [OF D(2) ok(1), where A = "A @ [Some x]" and C = "C @ [Some x]"]
  show ?case using D(1) ok(2) by simp
qed

lemma uninitialized_copy_n_throws:
  "length D = length xs \<Longrightarrow> \<not> list_all (\<lambda>x. \<not> copy_throws E x) xs \<Longrightarrow>
   \<exists>D'. length D' = length D \<and> (D = replicate (length D) None \<longrightarrow> D' = D) \<and>
     uninitialized_copy_n E (A @ map Some xs @ B) (length A) (length xs) (C @ D @ F) (length C) =
       Throws (C @ D' @ F)"
proof (induction xs arbitrary: A C D)
  case Nil
  then show ?case by simp
next
  case (Cons x xs)
  then obtain d D' where D: "D = d # D'" "length D' = length xs"
    by (cases D) auto
  show ?case
  proof (cases "copy_throws E x")
    case True
    then show ?thesis by (intro exI [of _ D]) simp
  next
    case False
    with Cons.prems have bad: "\<not> list_all (\<lambda>x. \<not> copy_throws E x) xs"
      by simp
    from Cons.IH [OF D(2) bad, where A = "A @ [Some x]" and C = "C @ [Some x]"]
    obtain D'' where D'': "length D'' = length D'" "D' = replicate (length D') None \<longrightarrow> D'' = D'"
      "uninitialized_copy_n E (A @ Some x # map Some xs @ B) (Suc (length A)) (length xs)
         (C @ Some x # D' @ F) (Suc (length C)) = Throws (C @ Some x # D'' @ F)"
      by auto
    show ?thesis
      using D False D'' by (intro exI [of _ "None # D''"]) auto
  qed
qed

lemma destroy_n_append:
  "destroy_n (A @ map Some xs @ B) (length A) (length xs) = Some (A @ replicate (length xs) None @ B)"
proof (induction xs arbitrary: A)
  case Nil
  then show ?case by simp
next
  case (Cons x xs)
  from Cons.IH [where A = "A @ [None]"]
  show ?case by (simp add: replicate_app_Cons_same)
qed

lemma uninitialized_value_construct_n_append:
  "length D = n \<Longrightarrow>
   uninitialized_value_construct_n E (C @ D @ F) (length C) n =
     Some (C @ replicate n (Some (value_init E)) @ F)"
proof (induction n arbitrary: C D)
  case 0
  then show ?case by simp
next
  case (Suc n)
  then obtain d D' where D: "D = d # D'" "length D' = n"
    by (cases D) auto
  from Suc.IH [OF D(2), where C = "C @ [Some (value_init E)]"]
  show ?case using D(1) by (simp add: replicate_app_Cons_same)
qed

lemma transfer_n_ok:
  "relocatable E xs \<Longrightarrow> length D = length xs \<Longrightarrow>
   transfer_n E (A @ map Some xs @ B) (length A) (length xs) (C @ D @ F) (length C) =
     Done (A @ map Some (residue E xs) @ B, C @ map Some xs @ F) ()"
  by (auto simp: transfer_n_def relocatable_def residue_def
      uninitialized_move_n_append uninitialized_copy_n_append)

lemma transfer_n_throws:
  "\<not> relocatable E xs \<Longrightarrow> length D = length xs \<Longrightarrow>
   \<exists>p. transfer_n E (A @ map Some xs @ B) (length A) (length xs) (C @ D @ F) (length C) = Throws p"
  using uninitialized_copy_n_throws [of D xs E A B C F]
  by (auto simp: transfer_n_def relocatable_def)


text \<open>The assignment loop runs over the same indices of both blocks.\<close>

lemma copy_assign_loop_append:
  "length D = length xs \<Longrightarrow> length A = length C \<Longrightarrow> list_all (\<lambda>x. \<not> assign_throws E x) xs \<Longrightarrow>
   copy_assign_loop E (A @ map Some xs @ B) (C @ D @ F) (length C) (length xs) =
     Done (C @ map Some xs @ F) ()"
proof (induction xs arbitrary: A C D)
  case Nil
  then show ?case by simp
next
  case (Cons x xs)
  then obtain d D' where D: "D = d # D'" "length D' = length xs"
    by (cases D) auto
  from Cons.prems have ok: "list_all (\<lambda>x. \<not> assign_throws E x) xs" "\<not> assign_throws E x"
    and len: "length (A @ [Some x]) = length (C @ [Some x])"
    by simp_all
  from Cons.IH [OF D(2) len ok(1)]
  show ?case using D(1) ok(2) Cons.prems(2) by (simp add: slot_read_def nth_append)
qed

lemma copy_assign_loop_throws:
  "length D = length xs \<Longrightarrow> length A = length C \<Longrightarrow> \<not> list_all (\<lambda>x. \<not> assign_throws E x) xs \<Longrightarrow>
   \<exists>D'. length D' = length D \<and>
     copy_assign_loop E (A @ map Some xs @ B) (C @ D @ F) (length C) (length xs) = Throws (C @ D' @ F)"
proof (induction xs arbitrary: A C D)
  case Nil
  then show ?case by simp
next
  case (Cons x xs)
  then obtain d D' where D: "D = d # D'" "length D' = length xs"
    by (cases D) auto
  show ?case
  proof (cases "assign_throws E x")
    case True
    then show ?thesis
      using Cons.prems(2) by (intro exI [of _ D]) (simp add: slot_read_def nth_append)
  next
    case False
    with Cons.prems have bad: "\<not> list_all (\<lambda>x. \<not> assign_throws E x) xs"
      and len: "length (A @ [Some x]) = length (C @ [Some x])"
      by simp_all
    from Cons.IH [OF D(2) len bad]
    obtain D'' where D'': "length D'' = length D'"
      "copy_assign_loop E (A @ Some x # map Some xs @ B) (C @ Some x # D' @ F) (Suc (length C)) (length xs) =
         Throws (C @ Some x # D'' @ F)"
      by auto
    show ?thesis
      using D False D'' Cons.prems(2)
      by (intro exI [of _ "Some x # D''"]) (simp add: slot_read_def nth_append)
  qed
qed

lemma self_move_assign:
  "slot_read m i = Some x \<Longrightarrow> move_assign_slot E m i i = Some m"
  by (auto simp: move_assign_slot_def slot_read_def list_update_same_conv split: if_splits)

lemma move_assign_slot_right:
  "move_assign_slot E (A @ Some x # s # B) (Suc (length A)) (length A) =
     Some (A @ Some (moved_from E x) # Some x # B)"
  by (simp add: move_assign_slot_def list_update_append)

lemma move_assign_slot_left:
  "move_assign_slot E (A @ s # Some x # B) (length A) (Suc (length A)) =
     Some (A @ Some x # Some (moved_from E x) # B)"
  by (simp add: move_assign_slot_def slot_read_def list_update_append nth_append)

text \<open>Shifting \<open>xs\<close> one slot toward the tail, over the slot \<open>s\<close> behind it.\<close>

lemma move_backward_loop_shift:
  "move_backward_loop E (A @ map Some xs @ s # B) (length A) (length xs) (Suc (length A + length xs)) =
     Some (if xs = [] then A @ s # B else A @ Some (moved_from E (hd xs)) # map Some xs @ B)"
proof (induction xs arbitrary: s B rule: rev_induct)
  case Nil
  then show ?case by simp
next
  case (snoc y ys)
  have a: "move_assign_slot E (A @ map Some (ys @ [y]) @ s # B) (Suc (length A + length ys)) (length A + length ys) =
      Some (A @ map Some ys @ Some (moved_from E y) # Some y # B)"
    using move_assign_slot_right [of E "A @ map Some ys" y s B] by simp
  show ?case
    using snoc.IH [of "Some (moved_from E y)" "Some y # B"] a by (cases ys) simp_all
qed

text \<open>Shifting \<open>xs\<close> one slot toward the head, over the slot \<open>s\<close> before it.\<close>

lemma move_loop_shift:
  "move_loop E (A @ s # map Some xs @ B) (Suc (length A)) (length xs) (length A) =
     Some (if xs = [] then A @ s # B else A @ map Some xs @ Some (moved_from E (last xs)) # B)"
proof (induction xs arbitrary: A s)
  case Nil
  then show ?case by simp
next
  case (Cons x xs)
  have a: "move_assign_slot E (A @ s # map Some (x # xs) @ B) (length A) (Suc (length A)) =
      Some (A @ Some x # Some (moved_from E x) # map Some xs @ B)"
    using move_assign_slot_left [of E A s x "map Some xs @ B"] by simp
  show ?case
    using Cons.IH [of "A @ [Some x]" "Some (moved_from E x)"] a by simp
qed

section \<open>Vectors in normal form\<close>

lemma replicate_split: "i < n \<Longrightarrow> replicate n x = replicate i x @ x # replicate (n - Suc i) x"
proof -
  assume "i < n"
  then have "i + Suc (n - Suc i) = n"
    by simp
  moreover have "replicate (i + Suc (n - Suc i)) x = replicate i x @ x # replicate (n - Suc i) x"
    by (simp add: replicate_add replicate_append_same)
  ultimately show ?thesis
    by simp
qed

lemma m_size_mk [simp]: "m_size (mk xs cap) = length xs"
  by (simp add: mk_def)

lemma Size_mk [simp]: "Size (mk xs cap) = length xs"
  by (simp add: Size_def)

lemma Capacity_mk [simp]: "length xs \<le> cap \<Longrightarrow> Capacity (mk xs cap) = cap"
  by (simp add: mk_def Capacity_def)

lemma elems_mk [simp]: "elems (mk xs cap) = xs"
  by (simp add: mk_def elems_def comp_def)

lemma invar_mk [simp]: "invar (mk xs cap)"
  by (simp add: mk_def invar_def list_all_iff)

lemma mk_eqI: "m = map Some xs @ replicate (cap - length xs) None \<Longrightarrow> n = length xs \<Longrightarrow>
  \<lparr>m_data = m, m_size = n\<rparr> = mk xs cap"
  by (simp add: mk_def)

lemma invar_is_mk: "invar v \<Longrightarrow> v = mk (elems v) (Capacity v)"
proof -
  assume w: "invar v"
  let ?n = "m_size v" and ?m = "m_data v"
  from w have le: "?n \<le> length ?m"
    and live: "list_all (\<lambda>s. s \<noteq> None) (take ?n ?m)"
    and raw: "list_all (\<lambda>s. s = None) (drop ?n ?m)"
    by (simp_all add: invar_def)
  from live have "map Some (map the (take ?n ?m)) = take ?n ?m"
    by (induction "take ?n ?m" arbitrary: ) (auto simp: list_all_iff intro!: map_idI)
  moreover from raw have "replicate (length ?m - ?n) None = drop ?n ?m"
    using replicate_length_same [of "drop ?n ?m" None] by (simp add: list_all_iff)
  ultimately have "map Some (elems v) @ replicate (Capacity v - length (elems v)) None = ?m"
    using le by (simp add: elems_def Capacity_def)
  then show ?thesis
    using le by (simp add: mk_def elems_def)
qed

lemma invar_length: "invar v \<Longrightarrow> length (elems v) = Size v \<and> Size v \<le> Capacity v"
  by (simp add: invar_def elems_def Size_def Capacity_def)

lemma m_data_mk_full: "m_data (mk xs (length xs)) = map Some xs"
  by (simp add: mk_def)

lemma one_slot_fits: "Allocate E Granted (Suc 0) = Block (raw_block (Suc 0))"
  using unsigned_less [of "size_of E", where ?'a = nat] by (simp add: Allocate_def)

lemma Allocate_fits:
  "n * unat (size_of E) < 2 ^ 64 \<Longrightarrow> Allocate E Granted n = Block (raw_block n)"
  by (simp add: Allocate_def raw_block_def)

lemma Allocate_wraps:
  "0 < n \<Longrightarrow> \<not> n * unat (size_of E) < 2 ^ 64 \<Longrightarrow> \<exists>k. Allocate E Granted n = Short k"
  by (simp add: Allocate_def)

lemma Allocate_exhausted: "0 < n \<Longrightarrow> Allocate E Exhausted n = BadAlloc"
  by (simp add: Allocate_def)

lemma Reserve_block:
  assumes "length xs \<le> cap" "cap < n"
  shows "(case transfer_n E (m_data (mk xs cap)) 0 (m_size (mk xs cap)) (raw_block n) 0 of
           Done (old, new_data) u \<Rightarrow>
             (case destroy_n old 0 (m_size (mk xs cap)) of
                None \<Rightarrow> Undefined
              | Some old' \<Rightarrow> Done ((mk xs cap)\<lparr>m_data := new_data\<rparr>) ())
         | Throws p \<Rightarrow> Throws (mk xs cap)
         | Undefined \<Rightarrow> Undefined) =
    (if relocatable E xs then Done (mk xs n) () else Throws (mk xs cap))"
proof -
  from assms have n: "length xs \<le> n" "cap < n" by simp_all
  have alloc: "raw_block n = replicate (length xs) None @ replicate (n - length xs) (None :: 'a option)"
    using n by (simp add: raw_block_def replicate_add [symmetric])
  show ?thesis
  proof (cases "relocatable E xs")
    case True
    from transfer_n_ok [OF True, where A = "[]" and C = "[]" and D = "replicate (length xs) None"
        and B = "replicate (cap - length xs) None" and F = "replicate (n - length xs) None"]
    have t: "transfer_n E (m_data (mk xs cap)) 0 (length xs) (raw_block n) 0 =
        Done (map Some (residue E xs) @ replicate (cap - length xs) None,
              map Some xs @ replicate (n - length xs) None) ()"
      by (simp add: alloc mk_def)
    have d: "destroy_n (map Some (residue E xs) @ replicate (cap - length xs) None) 0 (length xs) \<noteq> None"
      using destroy_n_append [where A = "[]" and xs = "residue E xs"] by simp
    show ?thesis
      using True n assms t d by (auto simp: mk_def)
  next
    case rel: False
    from transfer_n_throws [OF rel, where A = "[]" and C = "[]" and D = "replicate (length xs) None"
        and B = "replicate (cap - length xs) None" and F = "replicate (n - length xs) None"]
    obtain p where "transfer_n E (m_data (mk xs cap)) 0 (length xs) (raw_block n) 0 = Throws p"
      by (auto simp: alloc mk_def)
    then show ?thesis
      using rel by simp
  qed
qed

lemma Reserve_mk:
  assumes "length xs \<le> cap"
  shows "Reserve E h (mk xs cap) n =
    (if n \<le> cap then Done (mk xs cap) ()
     else if h = Exhausted then Throws (mk xs cap)
     else if \<not> n * unat (size_of E) < 2 ^ 64 then Undefined
     else if relocatable E xs then Done (mk xs n) ()
     else Throws (mk xs cap))"
proof (cases "n \<le> cap")
  case True
  with assms show ?thesis by (simp add: Reserve_def)
next
  case False
  then have n: "cap < n" "0 < n" by simp_all
  note blk = Reserve_block [OF assms n(1), of E]
  show ?thesis
  proof (cases h)
    case Exhausted
    then show ?thesis
      using assms n by (simp add: Reserve_def Allocate_exhausted)
  next
    case Granted
    show ?thesis
    proof (cases "n * unat (size_of E) < 2 ^ 64")
      case True
      then show ?thesis
        using assms n Granted blk by (simp add: Reserve_def Allocate_fits)
    next
      case wrap: False
      from Allocate_wraps [OF n(2) wrap] obtain k where "Allocate E Granted n = Short k" ..
      then show ?thesis
        using assms n Granted wrap by (simp add: Reserve_def)
    qed
  qed
qed

lemma Reserve_one: "Reserve E Granted (mk [] 0) (Suc 0) = Done (mk [] (Suc 0)) ()"
  using unsigned_less [of "size_of E", where ?'a = nat] by (simp add: Reserve_mk relocatable_def)

lemma construct_ext:
  "(\<And>i. slot_read m i = slot_read m' i) \<Longrightarrow> construct E m a = construct E m' a"
  by (cases a) (auto simp: construct_def deref_def split: cref.splits)

lemma construct_empty: "construct E (m_data (mk [] (Suc 0))) a = construct E (m_data (mk [] 0)) a"
  by (rule construct_ext) (simp add: mk_def slot_read_def)

lemma append_in_place:
  "length xs < cap \<Longrightarrow>
   placement_new (m_data (mk xs cap)) (length xs) (x :: 'a) = Some (m_data (mk (xs @ [x]) cap))"
proof -
  assume "length xs < cap"
  then have "replicate (cap - length xs) (None :: 'a option) = None # replicate (cap - Suc (length xs)) None"
    using replicate_split [of 0 "cap - length xs" "None :: 'a option"] by simp
  then show ?thesis
    by (simp add: mk_def)
qed

lemma grow_place:
  "length xs = cap \<Longrightarrow> 0 < cap \<Longrightarrow>
   placement_new (raw_block (cap * 2)) (length xs) (x :: 'a) =
     Some (replicate (length xs) None @ Some x # replicate (cap - 1) None)"
proof -
  assume "length xs = cap" "0 < cap"
  then have "replicate (cap * 2) (None :: 'a option) = replicate (length xs) None @ None # replicate (cap - 1) None"
    using replicate_split [of cap "cap * 2" "None :: 'a option"] by (simp add: mult_2_right)
  then show ?thesis
    by (simp add: raw_block_def)
qed

lemma grow_transfer:
  "length xs = cap \<Longrightarrow> relocatable E xs \<Longrightarrow>
   transfer_n E (m_data (mk xs cap)) 0 (length xs)
     (replicate (length xs) None @ Some x # replicate (cap - 1) None) 0 =
     Done (map Some (residue E xs), m_data (mk (xs @ [x]) (cap * 2))) ()"
  using transfer_n_ok [where A = "[]" and C = "[]" and D = "replicate (length xs) None"
      and B = "[]" and F = "Some x # replicate (cap - 1) None" and E = E and xs = xs]
  by (simp add: mk_def mult_2_right)

lemma grow_transfer_throws:
  "length xs = cap \<Longrightarrow> \<not> relocatable E xs \<Longrightarrow>
   \<exists>p. transfer_n E (m_data (mk xs cap)) 0 (length xs)
     (replicate (length xs) None @ Some x # replicate (cap - 1) None) 0 = Throws p"
  using transfer_n_throws [where A = "[]" and C = "[]" and D = "replicate (length xs) None"
      and B = "[]" and F = "Some x # replicate (cap - 1) None" and E = E and xs = xs]
  by (simp add: mk_def)

lemma destroy_old: "destroy_n (map Some ys) 0 (length ys) = Some (replicate (length ys) None)"
  using destroy_n_append [where A = "[]" and B = "[]" and xs = ys] by simp

lemma destroy_old_residue:
  "destroy_n (map Some (residue E xs)) 0 (length xs) = Some (replicate (length xs) None)"
  using destroy_old [of "residue E xs"] by simp

lemma mk_record: "n = length ys \<Longrightarrow> \<lparr>m_data = m_data (mk ys cap), m_size = n\<rparr> = mk ys cap"
  by (simp add: mk_def)

lemma EmplaceBack_mk:
  assumes "length xs \<le> cap" and c: "construct E (m_data (mk xs cap)) a = Done () x"
  shows "EmplaceBack E (mk xs cap) a =
    (if cap = 0 then Done (mk [x] 1) 0
     else if length xs < cap then Done (mk (xs @ [x]) cap) (length xs)
     else if relocatable E xs then Done (mk (xs @ [x]) (cap * 2)) (length xs)
     else Throws (mk xs cap))"
proof -
  consider (empty) "cap = 0" | (room) "0 < cap" "length xs < cap" | (full) "0 < cap" "length xs = cap"
    using assms(1) by linarith
  then show ?thesis
  proof cases
    case empty
    with assms(1) have xs: "xs = []" by simp
    have r: "Reserve E Granted (mk [] 0) 1 = Done (mk [] 1) ()"
      using Reserve_one [of E] by simp
    have c': "construct E (m_data (mk [] 1)) a = Done () x"
      using c xs empty by (simp add: construct_empty)
    show ?thesis
      using empty xs r c' append_in_place [of "[]" 1 x]
      by (simp add: EmplaceBack_def mk_record)
  next
    case room
    then show ?thesis
      using assms c append_in_place [of xs cap x]
      by (simp add: EmplaceBack_def mk_record)
  next
    case full
    show ?thesis
    proof (cases "relocatable E xs")
      case True
      show ?thesis
        using full True c grow_place [of xs cap x] grow_transfer [of xs cap E x] destroy_old_residue [of E xs]
        by (simp add: EmplaceBack_def mk_record)
    next
      case False
      from grow_transfer_throws [OF full(2) False, of x] obtain p where
        "transfer_n E (m_data (mk xs cap)) 0 (length xs)
           (replicate (length xs) None @ Some x # replicate (cap - 1) None) 0 = Throws p" ..
      then show ?thesis
        using full False c grow_place [of xs cap x]
        by (simp add: EmplaceBack_def)
    qed
  qed
qed


lemma PushBack_mk:
  assumes "length xs \<le> cap" and c: "construct E (m_data (mk xs cap)) (ByCopy r) = Done () x"
  shows "PushBack E (mk xs cap) r =
    (if cap = 0 then Done (mk [x] 1) ()
     else if length xs < cap then Done (mk (xs @ [x]) cap) ()
     else if relocatable E xs then Done (mk (xs @ [x]) (cap * 2)) ()
     else Throws (mk xs cap))"
proof -
  consider (empty) "cap = 0" | (room) "0 < cap" "length xs < cap" | (full) "0 < cap" "length xs = cap"
    using assms(1) by linarith
  then show ?thesis
  proof cases
    case empty
    with assms(1) have xs: "xs = []" by simp
    have r: "Reserve E Granted (mk [] 0) 1 = Done (mk [] 1) ()"
      using Reserve_one [of E] by simp
    have c': "construct E (m_data (mk [] 1)) (ByCopy r) = Done () x"
      using c xs empty by (simp add: construct_empty)
    show ?thesis
      using empty xs r c' append_in_place [of "[]" 1 x]
      by (simp add: PushBack_def mk_record)
  next
    case room
    then show ?thesis
      using assms c append_in_place [of xs cap x]
      by (simp add: PushBack_def mk_record)
  next
    case full
    show ?thesis
    proof (cases "relocatable E xs")
      case True
      show ?thesis
        using full True c grow_place [of xs cap x] grow_transfer [of xs cap E x] destroy_old_residue [of E xs]
        by (simp add: PushBack_def mk_record)
    next
      case False
      from grow_transfer_throws [OF full(2) False, of x] obtain p where
        "transfer_n E (m_data (mk xs cap)) 0 (length xs)
           (replicate (length xs) None @ Some x # replicate (cap - 1) None) 0 = Throws p" ..
      then show ?thesis
        using full False c grow_place [of xs cap x]
        by (simp add: PushBack_def)
    qed
  qed
qed

lemma PushBack_rvalue_mk:
  assumes "length xs \<le> cap"
  shows "PushBack_rvalue E (mk xs cap) x =
    (if cap = 0 then Done (mk [x] 1) ()
     else if length xs < cap then Done (mk (xs @ [x]) cap) ()
     else if relocatable E xs then Done (mk (xs @ [x]) (cap * 2)) ()
     else Throws (mk xs cap))"
proof -
  have c: "\<And>m. construct E m (ByMove x) = Done () x"
    by (simp add: construct_def)
  consider (empty) "cap = 0" | (room) "0 < cap" "length xs < cap" | (full) "0 < cap" "length xs = cap"
    using assms(1) by linarith
  then show ?thesis
  proof cases
    case empty
    with assms(1) have xs: "xs = []" by simp
    have r: "Reserve E Granted (mk [] 0) 1 = Done (mk [] 1) ()"
      using Reserve_one [of E] by simp
    show ?thesis
      using empty xs r c append_in_place [of "[]" 1 x]
      by (simp add: PushBack_rvalue_def mk_record)
  next
    case room
    then show ?thesis
      using assms c append_in_place [of xs cap x]
      by (simp add: PushBack_rvalue_def mk_record)
  next
    case full
    show ?thesis
    proof (cases "relocatable E xs")
      case True
      show ?thesis
        using full True c grow_place [of xs cap x] grow_transfer [of xs cap E x] destroy_old_residue [of E xs]
        by (simp add: PushBack_rvalue_def mk_record)
    next
      case False
      from grow_transfer_throws [OF full(2) False, of x] obtain p where
        "transfer_n E (m_data (mk xs cap)) 0 (length xs)
           (replicate (length xs) None @ Some x # replicate (cap - 1) None) 0 = Throws p" ..
      then show ?thesis
        using full False c grow_place [of xs cap x]
        by (simp add: PushBack_rvalue_def)
    qed
  qed
qed

lemma replicate_Cons_diff: "n < cap \<Longrightarrow> x # replicate (cap - Suc n) x = replicate (cap - n) x"
  using replicate_split [of 0 "cap - n" x] by simp

lemma Erase_split:
  assumes "length (ys @ y # zs) \<le> cap"
  shows "Erase E (mk (ys @ y # zs) cap) (length ys) = Done (mk (ys @ zs) cap) (length ys)"
proof -
  let ?R = "replicate (cap - Suc (length ys + length zs)) (None :: 'a option)"
  have data: "m_data (mk (ys @ y # zs) cap) = map Some ys @ Some y # map Some zs @ ?R"
    by (simp add: mk_def)
  have shift: "move_range E (map Some ys @ Some y # map Some zs @ ?R) (Suc (length ys))
      (Suc (length ys + length zs)) (length ys) =
      Some (if zs = [] then map Some ys @ Some y # ?R
            else map Some ys @ map Some zs @ Some (moved_from E (last zs)) # ?R)"
    using move_loop_shift [of E "map Some ys" "Some y" zs ?R] by (simp add: move_range_def)
  have destroy: "destroy_at (if zs = [] then map Some ys @ Some y # ?R
            else map Some ys @ map Some zs @ Some (moved_from E (last zs)) # ?R) (length ys + length zs) =
       Some (map Some ys @ map Some zs @ None # ?R)"
    using destroy_at_mid [of "map Some ys @ map Some zs" "length ys + length zs"] by auto
  have final: "map Some ys @ map Some zs @ None # ?R = m_data (mk (ys @ zs) cap)"
    using assms replicate_Cons_diff [of "length ys + length zs" cap "None :: 'a option"]
    by (simp add: mk_def)
  show ?thesis
    using assms shift destroy
    by (simp add: Erase_def data final mk_record) (simp add: mk_def)
qed

lemma Erase_mk:
  assumes "i < length xs" "length xs \<le> cap"
  shows "Erase E (mk xs cap) i = Done (mk (take i xs @ drop (Suc i) xs) cap) i"
proof -
  have xs: "xs = take i xs @ xs ! i # drop (Suc i) xs"
    using assms(1) by (rule id_take_nth_drop)
  have "Erase E (mk (take i xs @ xs ! i # drop (Suc i) xs) cap) (length (take i xs)) =
      Done (mk (take i xs @ drop (Suc i) xs) cap) (length (take i xs))"
    by (rule Erase_split) (use assms xs in simp)
  then show ?thesis
    using assms(1) xs by simp
qed


text \<open>
  Insertion in place, before an element: the last element \<open>l\<close> is moved onto itself, the
  elements \<open>zs\<close> between the position and \<open>l\<close> are shifted over \<open>l\<close>, and the slot behind
  \<open>l\<close> is never written.
\<close>

lemma Emplace_in_place:
  assumes room: "length (ys @ zs @ [l]) < cap"
    and c: "construct E (m_data (mk (ys @ zs @ [l]) cap)) a = Done () x"
  shows "Emplace E (mk (ys @ zs @ [l]) cap) (length ys) a =
    Done \<lparr>m_data = map Some (ys @ x # zs) @ replicate (cap - length (ys @ zs @ [l])) None,
          m_size = length (ys @ zs @ [l]) + 1\<rparr> (length ys)"
proof -
  let ?n = "Suc (length ys + length zs)"
  let ?R = "replicate (cap - ?n) (None :: 'a option)"
  let ?m = "map Some ys @ map Some zs @ Some l # ?R"
  have data: "m_data (mk (ys @ zs @ [l]) cap) = ?m"
    by (simp add: mk_def)
  have "slot_read ?m (length ys + length zs) = Some l"
    using slot_read_mid [of "map Some ys @ map Some zs" "length ys + length zs" l ?R] by simp
  then have first: "move_backward E ?m (length ys + length zs) ?n ?n = Some ?m"
    by (simp add: move_backward_def self_move_assign)
  have second: "move_backward E ?m (length ys) (length ys + length zs) ?n =
      Some (if zs = [] then map Some ys @ Some l # ?R
            else map Some ys @ Some (moved_from E (hd zs)) # map Some zs @ ?R)"
    using move_backward_loop_shift [of E "map Some ys" zs "Some l" ?R] by (simp add: move_backward_def)
  have place: "placement_new (if zs = [] then map Some ys @ Some l # ?R
            else map Some ys @ Some (moved_from E (hd zs)) # map Some zs @ ?R) (length ys) x =
      Some (map Some ys @ Some x # map Some zs @ ?R)"
    by simp
  show ?thesis
    using room c first second place
    by (simp add: Emplace_def data Capacity_def)
qed

text \<open>Insertion in place at \<open>end()\<close>: the second \<open>std::move_backward\<close> gets an inverted range.\<close>

lemma Emplace_in_place_end:
  assumes room: "length xs < cap" and ne: "xs \<noteq> []"
    and c: "construct E (m_data (mk xs cap)) a = Done () x"
  shows "Emplace E (mk xs cap) (length xs) a = Undefined"
proof -
  from ne obtain ys l where xs: "xs = ys @ [l]"
    by (cases xs rule: rev_cases) auto
  let ?R = "replicate (cap - Suc (length ys)) (None :: 'a option)"
  let ?m = "map Some ys @ Some l # ?R"
  have data: "m_data (mk (ys @ [l]) cap) = ?m"
    by (simp add: mk_def)
  have "slot_read ?m (length ys) = Some l"
    by simp
  then have first: "move_backward E ?m (length ys) (Suc (length ys)) (Suc (length ys)) = Some ?m"
    by (simp add: move_backward_def self_move_assign)
  have second: "move_backward E ?m (Suc (length ys)) (length ys) (Suc (length ys)) = None"
    by (simp add: move_backward_def)
  show ?thesis
    using room c first second
    by (simp add: Emplace_def data Capacity_def xs)
qed

text \<open>Insertion in place into an empty vector: \<open>data_.GetAddress() + size_ - 1\<close> is before the block.\<close>

lemma Emplace_in_place_empty:
  "0 < cap \<Longrightarrow> construct E (m_data (mk [] cap)) a = Done () x \<Longrightarrow>
   Emplace E (mk [] cap) index a = Undefined"
  by (simp add: Emplace_def mk_def Capacity_def)

lemma relocatable_append: "relocatable E (ys @ zs) = (relocatable E ys \<and> relocatable E zs)"
  by (auto simp: relocatable_def)

lemma residue_append: "residue E (ys @ zs) = residue E ys @ residue E zs"
  by (simp add: residue_def)

text \<open>Insertion with reallocation.\<close>

lemma Emplace_realloc:
  assumes c: "construct E (m_data (mk (ys @ zs) (length (ys @ zs)))) a = Done () (x :: 'a)"
  shows "Emplace E (mk (ys @ zs) (length (ys @ zs))) (length ys) a =
    (if relocatable E (ys @ zs)
     then Done (mk (ys @ x # zs) (if ys @ zs = [] then 1 else length (ys @ zs) * 2)) (length ys)
     else Throws (mk (ys @ zs) (length (ys @ zs))))"
proof -
  define n where "n = length ys + length zs"
  define N where "N = (if n = 0 then 1 else n * 2)"
  define F where "F = replicate (N - Suc n) (None :: 'a option)"
  define v where "v = mk (ys @ zs) (length (ys @ zs))"
  have v: "m_size v = n" "Capacity v = n" "m_data v = map Some ys @ map Some zs"
    by (simp_all add: v_def n_def mk_def Capacity_def)
  have sz: "n - length ys = length zs" "\<not> n < length ys"
    by (simp_all add: n_def)
  have N: "length ys < N" "Suc n \<le> N"
    unfolding N_def n_def by (cases ys; cases zs; simp)+
  have alloc: "(if n = 0 then 1 else Capacity v * 2) = N"
    by (simp add: N_def v)
  have c': "construct E (map Some ys @ map Some zs) a = Done () x"
    using c by (simp add: mk_def)
  have "N - Suc (length ys) = length zs + (N - Suc n)"
    using N by (simp add: n_def)
  then have "replicate (N - Suc (length ys)) (None :: 'a option) = replicate (length zs) None @ F"
    by (simp add: F_def replicate_add)
  then have place: "placement_new (raw_block N) (length ys) x =
      Some (replicate (length ys) None @ Some x # replicate (length zs) None @ F)"
    using N(1) replicate_split [of "length ys" N "None :: 'a option"]
    by (simp add: raw_block_def)
  have final: "\<lparr>m_data = map Some ys @ Some x # map Some zs @ F, m_size = Suc n\<rparr> = mk (ys @ x # zs) N"
    by (simp add: mk_def F_def n_def)
  have d: "destroy_n (map Some (residue E ys) @ map Some (residue E zs)) 0 n = Some (replicate n None)"
    using destroy_old [of "residue E ys @ residue E zs"] by (simp add: n_def)
  have main: "Emplace E v (length ys) a =
    (if relocatable E ys \<and> relocatable E zs then Done (mk (ys @ x # zs) N) (length ys) else Throws v)"
  proof (cases "relocatable E ys")
    case ys: True
    have t1: "transfer_n E (map Some ys @ map Some zs) 0 (length ys)
        (replicate (length ys) None @ Some x # replicate (length zs) None @ F) 0 =
        Done (map Some (residue E ys) @ map Some zs,
              map Some ys @ Some x # replicate (length zs) None @ F) ()"
      using transfer_n_ok [OF ys, where A = "[]" and C = "[]" and D = "replicate (length ys) None"
          and B = "map Some zs" and F = "Some x # replicate (length zs) None @ F"]
      by simp
    show ?thesis
    proof (cases "relocatable E zs")
      case zs: True
      have t2: "transfer_n E (map Some (residue E ys) @ map Some zs) (length ys) (length zs)
          (map Some ys @ Some x # replicate (length zs) None @ F) (Suc (length ys)) =
          Done (map Some (residue E ys) @ map Some (residue E zs),
                map Some ys @ Some x # map Some zs @ F) ()"
        using transfer_n_ok [OF zs, where A = "map Some (residue E ys)" and C = "map Some ys @ [Some x]"
            and D = "replicate (length zs) None" and B = "[]" and F = F]
        by simp
      show ?thesis
        using ys zs
        by (simp add: Emplace_def v alloc sz c' place t1 t2 d final)
    next
      case zs: False
      obtain p where t2: "transfer_n E (map Some (residue E ys) @ map Some zs) (length ys) (length zs)
          (map Some ys @ Some x # replicate (length zs) None @ F) (Suc (length ys)) = Throws p"
        using transfer_n_throws [OF zs, where A = "map Some (residue E ys)" and C = "map Some ys @ [Some x]"
            and D = "replicate (length zs) None" and B = "[]" and F = F]
        by auto
      show ?thesis
        using ys zs
        by (simp add: Emplace_def v alloc sz c' place t1 t2)
    qed
  next
    case ys: False
    obtain p where t1: "transfer_n E (map Some ys @ map Some zs) 0 (length ys)
        (replicate (length ys) None @ Some x # replicate (length zs) None @ F) 0 = Throws p"
      using transfer_n_throws [OF ys, where A = "[]" and C = "[]" and D = "replicate (length ys) None"
          and B = "map Some zs" and F = "Some x # replicate (length zs) None @ F"]
      by auto
    show ?thesis
      using ys
      by (simp add: Emplace_def v alloc sz c' place t1)
  qed
  show ?thesis
    using main by (simp add: v_def N_def n_def relocatable_append)
qed


lemma Vector_eta: "\<lparr>m_data = m_data v, m_size = m_size v\<rparr> = (v :: 'a Vector)"
  by (cases v) simp

lemma Swap_eq: "Swap v other = (other, v)"
  by (simp add: Swap_def Vector_eta)

lemma Vector_destroy_mk: "Vector_destroy (mk xs cap) = Some ()"
  using destroy_n_append [where A = "[]" and xs = xs and B = "replicate (cap - length xs) None"]
  by (simp add: Vector_destroy_def mk_def)

lemma Vector_copy_mk:
  "Vector_copy E (mk ws wcap) =
    (if list_all (\<lambda>x. \<not> copy_throws E x) ws then Done () (mk ws (length ws)) else Throws ())"
proof (cases "list_all (\<lambda>x. \<not> copy_throws E x) ws")
  case True
  from uninitialized_copy_n_append [OF _ True, where A = "[]" and C = "[]"
      and D = "replicate (length ws) None" and F = "[]" and B = "replicate (wcap - length ws) None"]
  show ?thesis
    using True by (simp add: Vector_copy_def mk_def raw_block_def)
next
  case False
  from uninitialized_copy_n_throws [OF _ False, where A = "[]" and C = "[]"
      and D = "replicate (length ws) None" and F = "[]" and B = "replicate (wcap - length ws) None"]
  show ?thesis
    using False by (auto simp: Vector_copy_def mk_def raw_block_def)
qed

lemma copy_assign_grow:
  assumes "length xs \<le> cap" "cap < length ws"
  shows "copy_assign E (mk xs cap) (Other (mk ws wcap)) =
    (if list_all (\<lambda>x. \<not> copy_throws E x) ws then Done (mk ws (length ws)) () else Throws (mk xs cap))"
  using assms by (simp add: copy_assign_def Vector_copy_mk Swap_eq Vector_destroy_mk)

lemma copy_assign_shrink:
  assumes "length xs \<le> cap" "length ws < length xs"
    and ok: "list_all (\<lambda>x. \<not> assign_throws E x) ws"
  shows "copy_assign E (mk xs cap) (Other (mk ws wcap)) = Done (mk ws cap) ()"
proof -
  define R where "R = replicate (cap - length xs) (None :: 'a option)"
  define M where "M = map Some ws @ map Some (drop (length ws) xs) @ R"
  have xs: "map Some xs = map Some (take (length ws) xs) @ map Some (drop (length ws) xs)"
    by (simp flip: map_append)
  have loop: "copy_assign_loop E (m_data (mk ws wcap)) (m_data (mk xs cap)) 0 (length ws) = Done M ()"
    using copy_assign_loop_append [OF _ _ ok, where A = "[]" and C = "[]"
        and D = "map Some (take (length ws) xs)" and B = "replicate (wcap - length ws) None"
        and F = "map Some (drop (length ws) xs) @ R"] assms(2)
    by (simp add: mk_def M_def R_def xs)
  have "replicate (length xs - length ws) None @ R = replicate (cap - length ws) None"
    using assms by (simp add: R_def replicate_add [symmetric])
  then have destroy: "destroy_n M (length ws) (length xs - length ws) = Some (m_data (mk ws cap))"
    using destroy_n_append [where A = "map Some ws" and xs = "drop (length ws) xs" and B = R]
    by (simp add: M_def mk_def)
  show ?thesis
    using assms by (simp add: copy_assign_def loop destroy mk_record)
qed

lemma copy_assign_extend:
  assumes "length ws \<le> cap" "length xs \<le> length ws"
    and ok: "list_all (\<lambda>x. \<not> assign_throws E x) (take (length xs) ws)"
      "list_all (\<lambda>x. \<not> copy_throws E x) (drop (length xs) ws)"
  shows "copy_assign E (mk xs cap) (Other (mk ws wcap)) = Done (mk ws cap) ()"
proof -
  define Rw where "Rw = replicate (wcap - length ws) (None :: 'a option)"
  define M where "M = map Some (take (length xs) ws) @ replicate (cap - length xs) None"
  have ws: "map Some ws = map Some (take (length xs) ws) @ map Some (drop (length xs) ws)"
    by (simp flip: map_append)
  have len: "length (take (length xs) ws) = length xs"
    using assms(2) by simp
  have loop: "copy_assign_loop E (m_data (mk ws wcap)) (m_data (mk xs cap)) 0 (length xs) = Done M ()"
    using copy_assign_loop_append [OF _ _ ok(1), where A = "[]" and C = "[]"
        and D = "map Some xs" and B = "map Some (drop (length xs) ws) @ Rw"
        and F = "replicate (cap - length xs) None"] assms(2)
    by (simp add: mk_def M_def Rw_def ws min_absorb2)
  have "replicate (cap - length xs) (None :: 'a option) =
      replicate (length ws - length xs) None @ replicate (cap - length ws) None"
    using assms by (simp add: replicate_add [symmetric])
  then have copy: "uninitialized_copy_n E (m_data (mk ws wcap)) (length xs) (length ws - length xs) M (length xs) =
      Done (m_data (mk ws cap)) ()"
    using uninitialized_copy_n_append [OF _ ok(2), where A = "map Some (take (length xs) ws)"
        and C = "map Some (take (length xs) ws)" and D = "replicate (length ws - length xs) None"
        and B = Rw and F = "replicate (cap - length ws) None"] assms(2)
    by (simp add: mk_def M_def Rw_def ws min_absorb2)
  show ?thesis
    using assms by (simp add: copy_assign_def loop copy mk_record)
qed

lemma not_throws_take: "list_all P ws \<Longrightarrow> list_all P (take n ws)"
  by (auto simp: list_all_iff dest: in_set_takeD)

lemma not_throws_drop: "list_all P ws \<Longrightarrow> list_all P (drop n ws)"
  by (auto simp: list_all_iff dest: in_set_dropD)

lemma copy_assign_mk:
  assumes "length xs \<le> cap"
    and "list_all (\<lambda>x. \<not> copy_throws E x) ws" "list_all (\<lambda>x. \<not> assign_throws E x) ws"
  shows "copy_assign E (mk xs cap) (Other (mk ws wcap)) =
    Done (mk ws (if cap < length ws then length ws else cap)) ()"
proof -
  consider "cap < length ws" | "length ws \<le> cap" "length ws < length xs"
    | "length ws \<le> cap" "length xs \<le> length ws"
    by linarith
  then show ?thesis
  proof cases
    case 1
    then show ?thesis using assms by (simp add: copy_assign_grow)
  next
    case 2
    then show ?thesis using assms by (simp add: copy_assign_shrink)
  next
    case 3
    then show ?thesis
      using assms copy_assign_extend [of ws cap xs E wcap]
      by (simp add: not_throws_take not_throws_drop)
  qed
qed

lemma at_mk: "at (mk xs cap) i = (if i < length xs then Some (xs ! i) else None)"
  by (simp add: at_def mk_def slot_read_def nth_append)

lemma construct_Outside: "construct E m (ByCopy (Outside x)) = (if copy_throws E x then Throws () else Done () x)"
  by (simp add: construct_def deref_def)

lemma relocatable_snoc:
  "list_all (\<lambda>y. \<not> copy_throws E y) xs \<Longrightarrow> relocatable E xs"
  by (simp add: relocatable_def)

lemma snapshot_bounds: "n \<le> snapshot n"
  by (induction n) auto

lemma snapshot_power: "n \<noteq> 0 \<Longrightarrow> \<exists>k. snapshot n = 2 ^ k \<and> n \<le> 2 ^ k \<and> 2 ^ k < 2 * n"
proof (induction n)
  case 0
  then show ?case by simp
next
  case (Suc n)
  show ?case
  proof (cases "n = 0")
    case True
    then show ?thesis by (auto intro: exI [of _ 0])
  next
    case False
    with Suc.IH obtain k where k: "snapshot n = 2 ^ k" "n \<le> 2 ^ k" "2 ^ k < 2 * n"
      by auto
    show ?thesis
    proof (cases "n = snapshot n")
      case True
      with k False show ?thesis by (auto intro!: exI [of _ "Suc k"])
    next
      case neq: False
      with k False show ?thesis by (auto intro!: exI [of _ k])
    qed
  qed
qed

lemma push_seq_mk:
  "length ys \<le> cap \<Longrightarrow> list_all (\<lambda>y. \<not> copy_throws E y) (ys @ xs) \<Longrightarrow>
   \<exists>cap'. push_seq E (mk ys cap) xs = Done (mk (ys @ xs) cap') () \<and> length (ys @ xs) \<le> cap'"
proof (induction xs arbitrary: ys cap)
  case Nil
  then show ?case by auto
next
  case (Cons x xs)
  let ?cap = "if cap = 0 then 1 else if length ys < cap then cap else cap * 2"
  have c: "construct E (m_data (mk ys cap)) (ByCopy (Outside x)) = Done () x"
    using Cons.prems(2) by (simp add: construct_Outside)
  have rel: "relocatable E ys"
    using Cons.prems(2) by (simp add: relocatable_def)
  have step: "PushBack E (mk ys cap) (Outside x) = Done (mk (ys @ [x]) ?cap) ()"
    using PushBack_mk [OF Cons.prems(1) c] rel Cons.prems(1) by auto
  have le: "length (ys @ [x]) \<le> ?cap"
    using Cons.prems(1) by auto
  from Cons.IH [OF le] Cons.prems(2) step show ?case
    by simp
qed

lemma push_seq_snapshot_from:
  "list_all (\<lambda>y. \<not> copy_throws E y) (ys @ xs) \<Longrightarrow>
   push_seq E (mk ys (snapshot (length ys))) xs = Done (mk (ys @ xs) (snapshot (length (ys @ xs)))) ()"
proof (induction xs arbitrary: ys)
  case Nil
  then show ?case by simp
next
  case (Cons x xs)
  have c: "construct E (m_data (mk ys (snapshot (length ys)))) (ByCopy (Outside x)) = Done () x"
    using Cons.prems by (simp add: construct_Outside)
  have rel: "relocatable E ys"
    using Cons.prems by (simp add: relocatable_def)
  have step: "PushBack E (mk ys (snapshot (length ys))) (Outside x) =
      Done (mk (ys @ [x]) (snapshot (length (ys @ [x])))) ()"
    using PushBack_mk [OF snapshot_bounds c] rel snapshot_bounds [of "length ys"] by auto
  from Cons.IH [of "ys @ [x]"] Cons.prems step show ?case
    by simp
qed

lemma Vector_default_mk: "Vector_default = mk [] 0"
  by (simp add: Vector_default_def mk_def)

lemma push_seq_snapshot:
  "list_all (\<lambda>y. \<not> copy_throws E y) xs \<Longrightarrow>
   push_seq E Vector_default xs = Done (mk xs (snapshot (length xs))) ()"
  using push_seq_snapshot_from [of E "[]" xs] by (simp add: Vector_default_mk)

lemma Emplace_construct_cong:
  "construct E (m_data v) a = construct E (m_data v) b \<Longrightarrow> Emplace E v i a = Emplace E v i b"
  by (simp add: Emplace_def)

text \<open>A reference to an element of the vector is as good as a reference to a copy of it.\<close>

lemma Insert_alias:
  assumes "i < length xs" "length xs \<le> cap"
  shows "Insert E (mk xs cap) p (Inside i) = Insert E (mk xs cap) p (Outside (xs ! i))"
proof -
  have r: "slot_read (m_data (mk xs cap)) i = Some (xs ! i)"
    using assms by (simp add: mk_def slot_read_def nth_append)
  have cap: "Capacity (mk xs cap) \<noteq> 0" "xs \<noteq> []" "i \<le> length xs - 1"
    using assms by auto
  show ?thesis
  proof (cases "copy_throws E (xs ! i)")
    case True
    then have "Emplace E (mk xs cap) p (ByCopy (Outside (xs ! i))) = Throws (mk xs cap)"
      by (simp add: Emplace_def construct_def deref_def)
    then show ?thesis
      using True r cap by (simp add: Insert_def construct_def deref_def)
  next
    case False
    have "Emplace E (mk xs cap) p (ByMove (xs ! i)) = Emplace E (mk xs cap) p (ByCopy (Outside (xs ! i)))"
      using False by (intro Emplace_construct_cong) (simp add: construct_def deref_def)
    then show ?thesis
      using False r cap by (simp add: Insert_def construct_def deref_def)
  qed
qed

text \<open>With a full vector, \<open>Insert(begin(), v[2])\<close> on \<open>{1, 2, 3}\<close> gives \<open>{3, 1, 2, 3}\<close>.\<close>

lemma Insert_alias_reallocating:
  "Insert T_int (mk [1, 2, 3] 3) 0 (Inside 2) = Done (mk [3, 1, 2, 3] 6) 0"
  by code_simp

section \<open>Construction, PopBack and Resize\<close>

lemma Vector_sized_mk:
  "n * unat (size_of E) < 2 ^ 64 \<Longrightarrow>
   Vector_sized E Granted n = Done () (mk (replicate n (value_init E)) n)"
  using uninitialized_value_construct_n_append [where C = "[]" and F = "[]" and D = "replicate n None" and n = n and E = E]
  by (simp add: Vector_sized_def Allocate_def raw_block_def mk_def)

lemma PopBack_mk:
  assumes "length (ys @ [y]) \<le> cap"
  shows "PopBack (mk (ys @ [y]) cap) = Done (mk ys cap) ()"
proof -
  have "m_data (mk (ys @ [y]) cap) = map Some ys @ Some y # replicate (cap - Suc (length ys)) None"
    by (simp add: mk_def)
  moreover have "map Some ys @ None # replicate (cap - Suc (length ys)) None = m_data (mk ys cap)"
    using assms replicate_Cons_diff [of "length ys" cap "None :: 'a option"] by (simp add: mk_def)
  ultimately show ?thesis
    by (simp add: PopBack_def mk_record)
qed

lemma value_construct_mk:
  assumes "length xs \<le> n" "n \<le> cap"
  shows "uninitialized_value_construct_n E (m_data (mk xs cap)) (length xs) (n - length xs) =
    Some (m_data (mk (xs @ replicate (n - length xs) (value_init E)) cap))"
proof -
  have "replicate (cap - length xs) (None :: 'a option) =
      replicate (n - length xs) None @ replicate (cap - n) None"
    using assms by (simp add: replicate_add [symmetric])
  then show ?thesis
    using assms uninitialized_value_construct_n_append [where C = "map Some xs"
        and D = "replicate (n - length xs) None" and F = "replicate (cap - n) None"
        and n = "n - length xs" and E = E]
    by (simp add: mk_def)
qed

lemma destroy_tail_mk:
  assumes "n \<le> length xs" "length xs \<le> cap"
  shows "destroy_n (m_data (mk xs cap)) n (length xs - n) = Some (m_data (mk (take n xs) cap))"
proof -
  have xs: "map Some xs = map Some (take n xs) @ map Some (drop n xs)"
    by (simp flip: map_append)
  have "replicate (length xs - n) (None :: 'a option) @ replicate (cap - length xs) None =
      replicate (cap - n) None"
    using assms by (simp add: replicate_add [symmetric])
  then show ?thesis
    using assms destroy_n_append [where A = "map Some (take n xs)" and xs = "drop n xs"
        and B = "replicate (cap - length xs) None"]
    by (simp add: mk_def xs min_absorb2)
qed

lemma Resize_mk:
  assumes "length xs \<le> cap"
  shows "Resize E h (mk xs cap) n =
    (if length xs < n then
       if n \<le> cap then Done (mk (xs @ replicate (n - length xs) (value_init E)) cap) ()
       else if h = Exhausted then Throws (mk xs cap)
       else if \<not> n * unat (size_of E) < 2 ^ 64 then Undefined
       else if relocatable E xs then Done (mk (xs @ replicate (n - length xs) (value_init E)) n) ()
       else Throws (mk xs cap)
     else Done (mk (take n xs) cap) ())"
proof -
  consider (more) "length xs < n" "n \<le> cap" | (grow) "length xs < n" "cap < n"
    | (less) "n < length xs" | (same) "n = length xs"
    by linarith
  then show ?thesis
  proof cases
    case more
    then show ?thesis
      using assms value_construct_mk [of xs n cap E]
      by (simp add: Resize_def mk_record)
  next
    case grow
    then show ?thesis
      using assms value_construct_mk [of xs n n E]
      by (simp add: Resize_def Reserve_mk mk_record)
  next
    case less
    then show ?thesis
      using assms destroy_tail_mk [of n xs cap]
      by (simp add: Resize_def mk_record)
  next
    case same
    then show ?thesis
      by (simp add: Resize_def)
  qed
qed

text \<open>
  What insertion in place leaves: a vector one longer than before whose first slots hold the
  elements before the position, the new element and the elements behind the position but the
  last, and whose last slot is raw.
\<close>

lemma Emplace_in_place_breaks_invariant:
  assumes "length (ys @ zs @ [l]) < cap"
    and "construct E (m_data (mk (ys @ zs @ [l]) cap)) a = Done () x"
  shows "\<exists>v'. Emplace E (mk (ys @ zs @ [l]) cap) (length ys) a = Done v' (length ys) \<and>
    Size v' = length (ys @ zs @ [l]) + 1 \<and>
    map (at v') [0 ..< length (ys @ zs @ [l])] = map Some (ys @ x # zs) \<and>
    at v' (length (ys @ zs @ [l])) = None \<and> \<not> invar v'"
proof -
  define n where "n = length (ys @ zs @ [l])"
  define L where "L = ys @ x # zs"
  define v' where "v' = \<lparr>m_data = map Some L @ replicate (cap - n) None, m_size = n + 1\<rparr>"
  have len: "length L = n" "n < cap"
    using assms(1) by (simp_all add: L_def n_def)
  have e: "Emplace E (mk (ys @ zs @ [l]) cap) (length ys) a = Done v' (length ys)"
    using Emplace_in_place [OF assms] by (simp add: v'_def L_def n_def)
  have R: "replicate (cap - n) (None :: 'a option) = None # replicate (cap - Suc n) None"
    using len(2) replicate_Cons_diff [of n cap "None :: 'a option"] by simp
  have raw: "at v' n = None"
    using nth_append_length [of "map Some L" None "replicate (cap - Suc n) None"] len
    by (simp add: v'_def at_def slot_read_def R)
  have "\<And>i. i < n \<Longrightarrow> at v' i = Some (L ! i)"
    using len by (simp add: v'_def at_def slot_read_def nth_append)
  then have held: "map (at v') [0 ..< n] = map Some L"
    using len by (intro nth_equalityI) simp_all
  have "take (Suc n) (map Some L @ None # replicate (cap - Suc n) None) = map Some L @ [None]"
    using len by simp
  then have broken: "\<not> invar v'"
    by (simp add: v'_def invar_def R)
  have size: "Size v' = n + 1"
    by (simp add: Size_def v'_def)
  have "\<exists>v'. Emplace E (mk (ys @ zs @ [l]) cap) (length ys) a = Done v' (length ys) \<and>
    Size v' = n + 1 \<and> map (at v') [0 ..< n] = map Some L \<and> at v' n = None \<and> \<not> invar v'"
    using e size held raw broken by blast
  then show ?thesis
    unfolding n_def L_def .
qed

section \<open>Exception safety of the single operations\<close>

text \<open>
  Whatever throws inside \<open>Emplace\<close>, \<open>Insert\<close> or \<open>Reserve\<close>, the vector is left as it was; the
  same holds for \<open>PushBack\<close> and \<open>EmplaceBack\<close> on a vector whose capacity is not \<open>0\<close>.
\<close>

lemma Emplace_strong: "Emplace E v i a = Throws v' \<Longrightarrow> v' = v"
  by (auto simp: Emplace_def split: if_splits outcome.splits option.splits prod.splits)

lemma Insert_strong: "Insert E v i r = Throws v' \<Longrightarrow> v' = v"
  by (auto simp: Insert_def dest: Emplace_strong split: if_splits outcome.splits)

lemma Reserve_strong: "Reserve E h v n = Throws v' \<Longrightarrow> v' = v"
  by (auto simp: Reserve_def split: if_splits outcome.splits option.splits prod.splits allocation.splits)

lemma PushBack_strong: "Capacity v \<noteq> 0 \<Longrightarrow> PushBack E v r = Throws v' \<Longrightarrow> v' = v"
  by (auto simp: PushBack_def split: if_splits outcome.splits option.splits prod.splits)

lemma EmplaceBack_strong: "Capacity v \<noteq> 0 \<Longrightarrow> EmplaceBack E v a = Throws v' \<Longrightarrow> v' = v"
  by (auto simp: EmplaceBack_def split: if_splits outcome.splits option.splits prod.splits)

section \<open>Claims\<close>

text \<open>
  C1. The specification says that \<open>Emplace(pos, args...)\<close> on a vector with
  \<open>0 < Size() < Capacity()\<close> shifts the elements at and after \<open>pos\<close> one slot toward the tail,
  filling the empty slot behind the last element, and leaves the old prefix, the new element
  and the old suffix, with size one larger. The code does not: its first
  \<open>std::move_backward(data_ + size_ - 1, data_ + size_, data_ + size_)\<close> moves the last element
  onto itself, so the slot behind it stays raw and the last element is overwritten by the
  shift (lemmas \<open>Emplace_in_place\<close> and \<open>Emplace_in_place_breaks_invariant\<close> for every position
  before \<open>end()\<close>; at \<open>end()\<close> the second \<open>std::move_backward\<close> gets an inverted range, lemma
  \<open>Emplace_in_place_end\<close>). Here: \<open>{1, 2, 3}\<close>
  with capacity \<open>4\<close>, \<open>Emplace(begin() + 1, 9)\<close> leaves the slots \<open>1, 9, 2\<close> and a raw slot, with
  size \<open>4\<close>; the element \<open>3\<close> is gone.
\<close>

theorem Emplace_in_place_drops_last_element:
  "Emplace T_int (mk [1, 2, 3] 4) 1 (Pack (Some 9)) =
     Done \<lparr>m_data = [Some 1, Some 9, Some 2, None], m_size = 4\<rparr> 1"
  by code_simp

text \<open>
  C2. The specification says that \<open>Insert(it, v[i])\<close>, with a value that is an element of the same
  vector, corrupts neither the inserted value nor a shifted element, and that \<open>{1, 2, 3}\<close> with
  \<open>Insert(begin(), v[2])\<close> becomes \<open>{3, 1, 2, 3}\<close>. The copy of the aliased value is taken in time
  (lemma \<open>Insert_alias\<close>), and with capacity \<open>3\<close> the result is \<open>{3, 1, 2, 3}\<close> (lemma
  \<open>Insert_alias_reallocating\<close>); but with a spare slot, as after three calls of \<open>PushBack\<close>, the
  insertion in place loses the last element: the slots are \<open>3, 1, 2\<close> and a raw slot, with size \<open>4\<close>.
\<close>

theorem Insert_alias_in_place_drops_last_element:
  "Insert T_int (mk [1, 2, 3] 4) 0 (Inside 2) =
     Done \<lparr>m_data = [Some 3, Some 1, Some 2, None], m_size = 4\<rparr> 0"
  by code_simp

text \<open>
  C3. The specification says that after every sequence of operations the slots \<open>[0, Size())\<close>
  hold objects, the slots \<open>[Size(), Capacity())\<close> are raw and \<open>Capacity() >= Size()\<close>. Three calls of
  \<open>PushBack\<close> on an empty vector and one \<open>Insert\<close> at \<open>begin()\<close> leave a vector of size \<open>4\<close> whose
  slot \<open>3\<close> is raw: the invariant is broken, and \<open>v[3]\<close> reads a slot that holds no object.
  The other operations, and \<open>Emplace\<close> where it reallocates, give vectors in normal form
  (\<open>mk\<close>), which satisfy the invariant (lemma \<open>invar_mk\<close>).
\<close>

theorem invariant_broken_by_Insert:
  "PushBack T_int Vector_default (Outside 1) = Done (mk [1] 1) () \<and>
   PushBack T_int (mk [1] 1) (Outside 2) = Done (mk [1, 2] 2) () \<and>
   PushBack T_int (mk [1, 2] 2) (Outside 3) = Done (mk [1, 2, 3] 4) () \<and>
   Insert T_int (mk [1, 2, 3] 4) 0 (Outside 9) =
     Done \<lparr>m_data = [Some 9, Some 1, Some 2, None], m_size = 4\<rparr> 0 \<and>
   \<not> invar \<lparr>m_data = [Some 9, Some 1, Some 2, None :: int option], m_size = 4\<rparr> \<and>
   at \<lparr>m_data = [Some 9, Some 1, Some 2, None :: int option], m_size = 4\<rparr> 3 = None"
proof -
  have first: "PushBack T_int Vector_default (Outside 1) = Done (mk [1] 1) ()"
    using PushBack_mk [of "[]" 0 T_int "Outside 1" 1]
    by (simp add: Vector_default_mk construct_Outside T_int_def)
  have rest: "PushBack T_int (mk [1] 1) (Outside 2) = Done (mk [1, 2] 2) () \<and>
     PushBack T_int (mk [1, 2] 2) (Outside 3) = Done (mk [1, 2, 3] 4) () \<and>
     Insert T_int (mk [1, 2, 3] 4) 0 (Outside 9) =
       Done \<lparr>m_data = [Some 9, Some 1, Some 2, None], m_size = 4\<rparr> 0 \<and>
     \<not> invar \<lparr>m_data = [Some 9, Some 1, Some 2, None :: int option], m_size = 4\<rparr> \<and>
     at \<lparr>m_data = [Some 9, Some 1, Some 2, None :: int option], m_size = 4\<rparr> 3 = None"
    by code_simp
  from first rest show ?thesis
    by (rule conjI)
qed

text \<open>
  C4. The specification says that move construction and move assignment both leave the source
  empty. Move assignment swaps: after \<open>a = std::move(b)\<close> with \<open>a = {1}\<close> and \<open>b = {2, 3}\<close>, \<open>b\<close>
  holds \<open>{1}\<close>.
\<close>

theorem move_assign_source_not_empty:
  "move_assign (mk [1 :: int] 1) (Other (mk [2, 3] 2)) = (mk [2, 3] 2, Other (mk [1] 1)) \<and>
   Size (mk [1 :: int] 1) = 1"
  by code_simp

text \<open>
  C4, as amended. Move construction gives the new vector the block and the elements of the
  source and leaves the source empty, with size and capacity \<open>0\<close>. Move assignment from another
  vector gives the destination the block and the elements of the source, in order, and leaves
  in the source what the destination held before: the source is empty afterwards exactly when
  the destination was empty before.
\<close>

theorem move_leaves_source:
  "Vector_move src = (src, Vector_default) \<and>
   elems (fst (Vector_move src)) = elems src \<and>
   Size (snd (Vector_move src)) = 0 \<and> Capacity (snd (Vector_move src)) = 0 \<and>
   invar (snd (Vector_move src)) \<and>
   move_assign v (Other src) = (src, Other v) \<and>
   elems (fst (move_assign v (Other src))) = elems src"
  by (simp add: Vector_move_def move_assign_def Vector_eta Vector_default_def Size_def Capacity_def invar_def)

text \<open>
  C5. The specification says that when the construction of the new element throws during
  \<open>PushBack\<close>, \<open>Insert\<close>, \<open>Emplace\<close> or \<open>Reserve\<close>, size, capacity and elements are as before the
  call, also for a \<open>PushBack\<close> that starts from capacity \<open>0\<close>. That holds for \<open>Emplace\<close>,
  \<open>Insert\<close> and \<open>Reserve\<close> and for \<open>PushBack\<close> on a capacity that is not \<open>0\<close> (the lemmas of the
  section before). From capacity \<open>0\<close>, \<open>PushBack\<close> first calls \<open>Reserve(1)\<close> and constructs
  afterwards: when the copy throws, the capacity is \<open>1\<close>.
\<close>

theorem PushBack_throw_from_empty_changes_capacity:
  "PushBack T_throwing Vector_default (Outside (- 1)) = Throws \<lparr>m_data = [None], m_size = 0\<rparr> \<and>
   Capacity (Vector_default :: int Vector) = 0 \<and>
   Capacity \<lparr>m_data = [None :: int option], m_size = 0\<rparr> = 1"
proof -
  have throws: "PushBack T_throwing Vector_default (Outside (- 1)) = Throws \<lparr>m_data = [None], m_size = 0\<rparr>"
    using Reserve_one [of T_throwing]
    by (simp add: PushBack_def Vector_default_mk Capacity_def construct_Outside T_throwing_def)
      (simp add: mk_def)
  have caps: "Capacity (Vector_default :: int Vector) = 0 \<and>
     Capacity \<lparr>m_data = [None :: int option], m_size = 0\<rparr> = 1"
    by code_simp
  from throws caps show ?thesis
    by (rule conjI)
qed

text \<open>
  C6. On a vector that satisfies the invariant, a \<open>PushBack\<close> or \<open>EmplaceBack\<close> that does not
  throw makes the capacity \<open>1\<close> when it was \<open>0\<close>, doubles it when the vector was full, and leaves
  it unchanged otherwise. Pushing the elements \<open>xs\<close> one by one onto a default-constructed vector
  gives the capacities \<open>snapshot\<close> lists (\<open>0, 1, 2, 4, 4, 8, ...\<close>): after the last push it is the
  smallest power of two that is at least the number of elements.
\<close>

theorem growth_doubling:
  assumes "invar v" "relocatable E (elems v)"
    "construct E (m_data v) (ByCopy r) = Done () x" "construct E (m_data v) a = Done () y"
    "list_all (\<lambda>y. \<not> copy_throws E y) xs"
  shows "(\<exists>v'. PushBack E v r = Done v' () \<and>
        Capacity v' =
          (if Capacity v = 0 then 1 else if Size v = Capacity v then Capacity v * 2 else Capacity v)) \<and>
    (\<exists>v'. PushBack_rvalue E v z = Done v' () \<and>
        Capacity v' =
          (if Capacity v = 0 then 1 else if Size v = Capacity v then Capacity v * 2 else Capacity v)) \<and>
    (\<exists>v'. EmplaceBack E v a = Done v' (Size v) \<and>
        Capacity v' =
          (if Capacity v = 0 then 1 else if Size v = Capacity v then Capacity v * 2 else Capacity v)) \<and>
    push_seq E Vector_default xs = Done (mk xs (snapshot (length xs))) () \<and>
    (xs \<noteq> [] \<longrightarrow> (\<exists>k. snapshot (length xs) = 2 ^ k \<and> length xs \<le> 2 ^ k \<and> 2 ^ k < 2 * length xs))"
proof -
  from assms(1) have v: "v = mk (elems v) (Capacity v)"
    and len: "length (elems v) = Size v" "Size v \<le> Capacity v"
    using invar_is_mk invar_length by auto
  let ?xs = "elems v" and ?cap = "Capacity v"
  let ?cap' = "if ?cap = 0 then 1 else if length ?xs < ?cap then ?cap else ?cap * 2"
  let ?G = "if ?cap = 0 then 1 else if Size v = ?cap then ?cap * 2 else ?cap"
  have le: "length ?xs \<le> ?cap"
    using len by simp
  have c: "construct E (m_data (mk ?xs ?cap)) (ByCopy r) = Done () x"
    "construct E (m_data (mk ?xs ?cap)) a = Done () y"
    using assms(3,4) v by simp_all
  have empty: "?cap = 0 \<Longrightarrow> ?xs = [] \<and> Size v = 0"
    using len by simp
  have cap: "\<And>u. Capacity (mk (?xs @ [u]) ?cap') = ?G"
    using len empty by auto
  have "PushBack E (mk ?xs ?cap) r = Done (mk (?xs @ [x]) ?cap') ()"
    using PushBack_mk [OF le c(1)] assms(2) empty by auto
  then have "PushBack E v r = Done (mk (?xs @ [x]) ?cap') ()"
    using v by simp
  then have p: "\<exists>v'. PushBack E v r = Done v' () \<and> Capacity v' = ?G"
    using cap by blast
  have "PushBack_rvalue E (mk ?xs ?cap) z = Done (mk (?xs @ [z]) ?cap') ()"
    using PushBack_rvalue_mk [OF le] assms(2) empty by auto
  then have "PushBack_rvalue E v z = Done (mk (?xs @ [z]) ?cap') ()"
    using v by simp
  then have pr: "\<exists>v'. PushBack_rvalue E v z = Done v' () \<and> Capacity v' = ?G"
    using cap by blast
  have "EmplaceBack E (mk ?xs ?cap) a = Done (mk (?xs @ [y]) ?cap') (Size v)"
    using EmplaceBack_mk [OF le c(2)] assms(2) empty len by auto
  then have "EmplaceBack E v a = Done (mk (?xs @ [y]) ?cap') (Size v)"
    using v by simp
  then have e: "\<exists>v'. EmplaceBack E v a = Done v' (Size v) \<and> Capacity v' = ?G"
    using cap by blast
  show ?thesis
    using p pr e push_seq_snapshot [OF assms(5)] snapshot_power [of "length xs"] by simp
qed

theorem growth_doubling_witness:
  "invar (mk [1, 2 :: int] 2) \<and> relocatable T_int (elems (mk [1, 2] 2)) \<and>
   construct T_int (m_data (mk [1, 2] 2)) (ByCopy (Outside 3)) = Done () 3 \<and>
   construct T_int (m_data (mk [1, 2] 2)) (Pack (Some 4)) = Done () 4 \<and>
   list_all (\<lambda>y. \<not> copy_throws T_int y) [1, 2, 3, 4, 5] \<and>
   PushBack T_int (mk [1, 2] 2) (Outside 3) = Done (mk [1, 2, 3] 4) () \<and>
   EmplaceBack T_int (mk [1, 2] 2) (Pack (Some 4)) = Done (mk [1, 2, 4] 4) 2 \<and>
   push_seq T_int Vector_default [1, 2, 3, 4, 5] = Done (mk [1, 2, 3, 4, 5] 8) () \<and>
   map snapshot [0, 1, 2, 3, 4, 5, 6, 7, 8, 9] = [0, 1, 2, 4, 4, 8, 8, 8, 8, 16]"
proof -
  have h: "invar (mk [1, 2 :: int] 2)" "relocatable T_int (elems (mk [1, 2] 2))"
    "construct T_int (m_data (mk [1, 2] 2)) (ByCopy (Outside 3)) = Done () 3"
    "construct T_int (m_data (mk [1, 2] 2)) (Pack (Some 4)) = Done () 4"
    "list_all (\<lambda>y. \<not> copy_throws T_int y) [1, 2, 3, 4, 5]"
    by (simp, simp add: relocatable_def T_int_def, simp add: construct_Outside T_int_def,
        simp add: construct_def, simp add: T_int_def)
  have s: "map snapshot [0, 1, 2, 3, 4, 5, 6, 7, 8, 9] = [0, 1, 2, 4, 4, 8, 8, 8, 8, 16]"
    by code_simp
  then have s5: "snapshot 5 = 8"
    by simp
  have len: "length [1, 2, 3, 4, 5 :: int] = 5"
    by simp
  have seq: "push_seq T_int Vector_default [1, 2, 3, 4, 5] = Done (mk [1, 2, 3, 4, 5] 8) ()"
    using growth_doubling [OF h, THEN conjunct2, THEN conjunct2, THEN conjunct2, THEN conjunct1]
    unfolding len s5 .
  have pb: "PushBack T_int (mk [1, 2] 2) (Outside 3) = Done (mk [1, 2, 3] 4) ()"
    by code_simp
  have eb: "EmplaceBack T_int (mk [1, 2] 2) (Pack (Some 4)) = Done (mk [1, 2, 4] 4) 2"
    by code_simp
  show ?thesis
    by (intro conjI h s seq pb eb)
qed

text \<open>
  C7. Copy assignment \<open>v = w\<close> between two vectors that satisfy the invariant, when no copy and no
  assignment of an element of \<open>w\<close> throws: \<open>v\<close> then has the size and the elements of \<open>w\<close>, in
  order (\<open>w\<close> is passed by reference to const, and the operation has no effect on it). When
  \<open>w.Size() > v.Capacity()\<close>, \<open>v\<close> becomes the temporary copy of \<open>w\<close>, whose capacity is the size of
  \<open>w\<close>; and when a copy throws while the temporary is built, \<open>v\<close> is untouched.
\<close>

theorem copy_assign_copies:
  assumes "invar v" "invar w"
  shows "(list_all (\<lambda>x. \<not> copy_throws E x) (elems w) \<and> list_all (\<lambda>x. \<not> assign_throws E x) (elems w) \<longrightarrow>
       (\<exists>v'. copy_assign E v (Other w) = Done v' () \<and> invar v' \<and> Size v' = Size w \<and>
          elems v' = elems w)) \<and>
    (Capacity v < Size w \<longrightarrow>
       copy_assign E v (Other w) =
         (if list_all (\<lambda>x. \<not> copy_throws E x) (elems w) then Done (mk (elems w) (Size w)) ()
          else Throws v))"
proof -
  from assms(1) have v: "v = mk (elems v) (Capacity v)"
    and lv: "length (elems v) = Size v" "Size v \<le> Capacity v"
    using invar_is_mk invar_length by auto
  from assms(2) have w: "w = mk (elems w) (Capacity w)"
    and lw: "length (elems w) = Size w" "Size w \<le> Capacity w"
    using invar_is_mk invar_length by auto
  let ?xs = "elems v" and ?cap = "Capacity v" and ?ws = "elems w" and ?wcap = "Capacity w"
  have le: "length ?xs \<le> ?cap"
    using lv by simp
  have ok: "list_all (\<lambda>x. \<not> copy_throws E x) ?ws \<Longrightarrow> list_all (\<lambda>x. \<not> assign_throws E x) ?ws \<Longrightarrow>
      copy_assign E (mk ?xs ?cap) (Other (mk ?ws ?wcap)) =
        Done (mk ?ws (if ?cap < length ?ws then length ?ws else ?cap)) ()"
    using le by (rule copy_assign_mk)
  have grow: "?cap < Size w \<Longrightarrow> copy_assign E (mk ?xs ?cap) (Other (mk ?ws ?wcap)) =
      (if list_all (\<lambda>x. \<not> copy_throws E x) ?ws then Done (mk ?ws (length ?ws)) () else Throws (mk ?xs ?cap))"
    using le lw by (intro copy_assign_grow) simp_all
  show ?thesis
  proof (intro conjI impI)
    assume "list_all (\<lambda>x. \<not> copy_throws E x) ?ws \<and> list_all (\<lambda>x. \<not> assign_throws E x) ?ws"
    then have "copy_assign E v (Other w) = Done (mk ?ws (if ?cap < length ?ws then length ?ws else ?cap)) ()"
      using ok v w by simp
    then show "\<exists>v'. copy_assign E v (Other w) = Done v' () \<and> invar v' \<and> Size v' = Size w \<and> elems v' = elems w"
      using lw by (intro exI [of _ "mk ?ws (if ?cap < length ?ws then length ?ws else ?cap)"]) simp
  next
    assume "?cap < Size w"
    then show "copy_assign E v (Other w) =
        (if list_all (\<lambda>x. \<not> copy_throws E x) ?ws then Done (mk ?ws (Size w)) () else Throws v)"
      using grow v w lw by simp
  qed
qed

theorem copy_assign_copies_witness:
  "invar (mk [1, 2, 3 :: int] 5) \<and> invar (mk [7, 8 :: int] 4) \<and> invar (mk [7, - 8, 9, 10, 11, 12 :: int] 6) \<and>
   copy_assign T_throwing (mk [1, 2, 3] 5) (Other (mk [7, 8] 4)) = Done (mk [7, 8] 5) () \<and>
   copy_assign T_throwing (mk [1, 2, 3] 5) (Other (mk [7, - 8, 9, 10, 11, 12] 6)) = Throws (mk [1, 2, 3] 5)"
proof -
  have h: "invar (mk [1, 2, 3 :: int] 5)" "invar (mk [7, 8 :: int] 4)" "invar (mk [7, - 8, 9, 10, 11, 12 :: int] 6)"
    by simp_all
  from copy_assign_copies [OF h(1) h(2), of T_throwing] obtain v' where v':
    "copy_assign T_throwing (mk [1, 2, 3] 5) (Other (mk [7, 8] 4)) = Done v' ()" "elems v' = [7, 8]"
    by (auto simp: T_throwing_def)
  moreover have "copy_assign T_throwing (mk [1, 2, 3] 5) (Other (mk [7, 8] 4)) = Done (mk [7, 8] 5) ()"
    by code_simp
  moreover from copy_assign_copies [OF h(1) h(3), of T_throwing]
  have "copy_assign T_throwing (mk [1, 2, 3] 5) (Other (mk [7, - 8, 9, 10, 11, 12] 6)) = Throws (mk [1, 2, 3] 5)"
    by (simp add: T_throwing_def)
  ultimately show ?thesis
    using h by simp
qed

text \<open>
  C8. \<open>Erase(pos)\<close> on a vector that satisfies the invariant, at a position \<open>index < Size()\<close>: the
  element at \<open>index\<close> is removed, the elements behind it keep their order and values one slot
  nearer the head, the size is one less, the capacity is unchanged, and the iterator returned
  is \<open>begin() + index\<close>: it refers to the element that followed the erased one, or it is \<open>end()\<close>
  when the last element was erased. Erasing the middle of \<open>{1, 2, 3}\<close> gives \<open>{1, 3}\<close> and an
  iterator to \<open>3\<close>.
\<close>

theorem Erase_removes_one:
  assumes "invar v" "index < Size v"
  shows "\<exists>v'. Erase E v index = Done v' index \<and> invar v' \<and>
    elems v' = take index (elems v) @ drop (Suc index) (elems v) \<and>
    Size v' = Size v - 1 \<and> Capacity v' = Capacity v \<and>
    (if Suc index < Size v then at v' index = Some (elems v ! Suc index) else index = Size v')"
proof -
  from assms(1) have v: "v = mk (elems v) (Capacity v)" and len: "length (elems v) = Size v" "Size v \<le> Capacity v"
    using invar_is_mk invar_length by auto
  let ?xs = "elems v"
  have e: "Erase E (mk ?xs (Capacity v)) index = Done (mk (take index ?xs @ drop (Suc index) ?xs) (Capacity v)) index"
    using assms(2) len by (intro Erase_mk) simp_all
  have "Suc index < Size v \<Longrightarrow> (take index ?xs @ drop (Suc index) ?xs) ! index = ?xs ! Suc index"
    using len by (simp add: nth_append min_absorb2)
  then show ?thesis
    using e v assms(2) len
    by (intro exI [of _ "mk (take index ?xs @ drop (Suc index) ?xs) (Capacity v)"])
      (auto simp: at_mk min_absorb2)
qed

theorem Erase_removes_one_witness:
  "invar (mk [1, 2, 3 :: int] 3) \<and> 1 < Size (mk [1, 2, 3 :: int] 3) \<and>
   Erase T_int (mk [1, 2, 3] 3) 1 = Done (mk [1, 3] 3) 1 \<and> at (mk [1, 3 :: int] 3) 1 = Some 3"
proof -
  have h: "invar (mk [1, 2, 3 :: int] 3)" "1 < Size (mk [1, 2, 3 :: int] 3)"
    by simp_all
  from Erase_removes_one [OF h, of T_int] obtain v' where v':
    "Erase T_int (mk [1, 2, 3] 3) 1 = Done v' 1" "invar v'" "elems v' = [1, 3]" "Capacity v' = 3"
    "at v' 1 = Some 3"
    by auto
  from v'(2-4) have "v' = mk [1, 3] 3"
    using invar_is_mk [of v'] by simp
  with v' h show ?thesis
    by simp
qed

text \<open>
  C9. \<open>Reserve(n)\<close> on a vector that satisfies the invariant: with \<open>n <= Capacity()\<close> nothing
  changes, whatever \<open>n\<close> and the heap are. With \<open>n > Capacity()\<close>, when the byte count
  \<open>n * sizeof(T)\<close> fits into \<open>size_t\<close>, the heap grants the block and the transfer of the elements
  does not throw, the capacity is \<open>n\<close> and size and elements are as before. When the heap
  refuses the block, the exception leaves the vector as it was.
\<close>

theorem Reserve_frame:
  assumes "invar v"
  shows "(n \<le> Capacity v \<longrightarrow> Reserve E h v n = Done v ()) \<and>
    (Capacity v < n \<and> n * unat (size_of E) < 2 ^ 64 \<and> relocatable E (elems v) \<longrightarrow>
       (\<exists>v'. Reserve E Granted v n = Done v' () \<and> invar v' \<and> Capacity v' = n \<and> Size v' = Size v \<and>
          elems v' = elems v)) \<and>
    (Capacity v < n \<longrightarrow> Reserve E Exhausted v n = Throws v)"
proof -
  from assms have v: "v = mk (elems v) (Capacity v)"
    and len: "length (elems v) = Size v" "Size v \<le> Capacity v"
    using invar_is_mk invar_length by auto
  have le: "length (elems v) \<le> Capacity v"
    using len by simp
  have r: "\<And>h. Reserve E h v n =
    (if n \<le> Capacity v then Done v ()
     else if h = Exhausted then Throws v
     else if \<not> n * unat (size_of E) < 2 ^ 64 then Undefined
     else if relocatable E (elems v) then Done (mk (elems v) n) ()
     else Throws v)"
    using Reserve_mk [OF le, of E _ n] v by simp
  have "Capacity v < n \<Longrightarrow> Capacity (mk (elems v) n) = n"
    using len by simp
  then show ?thesis
    using len by (auto simp: r)
qed

theorem Reserve_frame_witness:
  "invar (mk [1, 2, 3 :: int] 4) \<and>
   Reserve T_throwing Exhausted (mk [1, 2, 3] 4) 2 = Done (mk [1, 2, 3] 4) () \<and>
   7 * unat (size_of T_throwing) < (2 :: nat) ^ 64 \<and> relocatable T_throwing [1, 2, 3] \<and>
   Reserve T_throwing Granted (mk [1, 2, 3] 4) 7 = Done (mk [1, 2, 3] 7) () \<and>
   Reserve T_throwing Exhausted (mk [1, 2, 3] 4) 7 = Throws (mk [1, 2, 3] 4)"
proof -
  have h: "invar (mk [1, 2, 3 :: int] 4)"
    by simp
  have fits: "7 * unat (size_of T_throwing) < (2 :: nat) ^ 64"
    by (simp add: T_throwing_def)
  have rel: "relocatable T_throwing [1, 2, 3]"
    by (simp add: relocatable_def T_throwing_def)
  from Reserve_frame [OF h, of 2 T_throwing Exhausted]
  have a: "Reserve T_throwing Exhausted (mk [1, 2, 3] 4) 2 = Done (mk [1, 2, 3] 4) ()"
    by simp
  from Reserve_frame [OF h, of 7 T_throwing] fits rel obtain v' where v':
    "Reserve T_throwing Granted (mk [1, 2, 3] 4) 7 = Done v' ()" "invar v'" "Capacity v' = 7"
    "elems v' = [1, 2, 3]"
    by auto
  from v'(2-4) have "v' = mk [1, 2, 3] 7"
    using invar_is_mk [of v'] by simp
  with v'(1) have b: "Reserve T_throwing Granted (mk [1, 2, 3] 4) 7 = Done (mk [1, 2, 3] 7) ()"
    by simp
  from Reserve_frame [OF h, of 7 T_throwing]
  have c: "Reserve T_throwing Exhausted (mk [1, 2, 3] 4) 7 = Throws (mk [1, 2, 3] 4)"
    by simp
  show ?thesis
    by (intro conjI h a fits rel b c)
qed

text \<open>
  Outside these conditions the claim fails: \<open>Reserve(2^62)\<close> on a vector of three \<open>int\<close> asks
  \<open>operator new\<close> for \<open>2^64 mod 2^64 = 0\<close> bytes, and the three elements are written past that
  block.
\<close>

lemma Reserve_wraps:
  "Allocate T_int Granted (2 ^ 62) = (Short 0 :: int allocation) \<and>
   Reserve T_int Granted (mk [1, 2, 3] 4) (2 ^ 62) = Undefined"
proof -
  have a: "Allocate T_int Granted (2 ^ 62) = (Short 0 :: int allocation)"
    by (simp add: Allocate_def T_int_def)
  then show ?thesis
    by (simp add: Reserve_def Capacity_def mk_def)
qed

text \<open>
  C10. \<open>EmplaceBack(args...)\<close> on a vector that satisfies the invariant, when the construction
  from the arguments yields \<open>x\<close> and the transfer of the elements does not throw: it returns a
  reference to the slot at the old size, which holds \<open>x\<close>; the size is one more, and the elements
  are the old ones followed by \<open>x\<close>.
\<close>

theorem EmplaceBack_appends:
  assumes "invar v" "construct E (m_data v) a = Done () x" "relocatable E (elems v)"
  shows "\<exists>v'. EmplaceBack E v a = Done v' (Size v) \<and> invar v' \<and> Size v' = Size v + 1 \<and>
    elems v' = elems v @ [x] \<and> at v' (Size v) = Some x"
proof -
  from assms(1) have v: "v = mk (elems v) (Capacity v)"
    and len: "length (elems v) = Size v" "Size v \<le> Capacity v"
    using invar_is_mk invar_length by auto
  let ?xs = "elems v" and ?cap = "Capacity v"
  have le: "length ?xs \<le> ?cap"
    using len by simp
  have c: "construct E (m_data (mk ?xs ?cap)) a = Done () x"
    using assms(2) v by simp
  have e: "EmplaceBack E (mk ?xs ?cap) a =
    (if ?cap = 0 then Done (mk [x] 1) 0
     else if length ?xs < ?cap then Done (mk (?xs @ [x]) ?cap) (length ?xs)
     else Done (mk (?xs @ [x]) (?cap * 2)) (length ?xs))"
    using EmplaceBack_mk [OF le c] assms(3) by simp
  have empty: "?cap = 0 \<Longrightarrow> ?xs = [] \<and> Size v = 0"
    using len by simp
  let ?v' = "mk (?xs @ [x]) (if ?cap = 0 then 1 else if length ?xs < ?cap then ?cap else ?cap * 2)"
  have "EmplaceBack E v a = Done ?v' (Size v)"
    using e v len empty by (auto split: if_splits)
  moreover have "(?xs @ [x]) ! Size v = x"
    using len(1) nth_append_length [of ?xs x] by simp
  ultimately show ?thesis
    using len by (intro exI [of _ ?v']) (simp add: at_mk)
qed

theorem EmplaceBack_appends_witness:
  "invar (mk [1, 2 :: int] 2) \<and> construct T_throwing (m_data (mk [1, 2] 2)) (ByCopy (Inside 0)) = Done () 1 \<and>
   relocatable T_throwing (elems (mk [1, 2] 2)) \<and>
   EmplaceBack T_throwing (mk [1, 2] 2) (ByCopy (Inside 0)) = Done (mk [1, 2, 1] 4) 2"
proof -
  have h: "invar (mk [1, 2 :: int] 2)"
    "construct T_throwing (m_data (mk [1, 2] 2)) (ByCopy (Inside 0)) = Done () 1"
    "relocatable T_throwing (elems (mk [1, 2] 2))"
    by (simp, simp add: construct_def deref_def slot_read_def mk_def T_throwing_def,
        simp add: relocatable_def T_throwing_def)
  from EmplaceBack_appends [OF h] obtain v' where
    "EmplaceBack T_throwing (mk [1, 2] 2) (ByCopy (Inside 0)) = Done v' (Size (mk [1, 2 :: int] 2))"
    by auto
  moreover have "EmplaceBack T_throwing (mk [1, 2] 2) (ByCopy (Inside 0)) = Done (mk [1, 2, 1] 4) 2"
    by code_simp
  ultimately show ?thesis
    using h by simp
qed

end
